theory Spec2Isabelle
  imports Main "HOL-Library.Word" "HOL-Library.AList" "HOL-Library.Multiset"
begin

unbundle bit_operations_syntax

section \<open>Numbers as text (Go: net/parse.go)\<close>

type_synonym byte = "8 word"

text \<open>
  \<open>uitoa\<close> renders an unsigned integer in decimal without leading zeros;
  \<open>dtoi\<close> reads the longest decimal prefix of a string and returns the value, the number
  of characters consumed and whether it succeeded (no digit, or a value of \<open>big\<close> or
  more, fails).
\<close>

definition digit_char :: "nat \<Rightarrow> char" where
  "digit_char d = ''0123456789'' ! d"

definition digit_val :: "char \<Rightarrow> nat option" where
  "digit_val c = map_of (zip ''0123456789'' [0, 1, 2, 3, 4, 5, 6, 7, 8, 9]) c"

fun uitoa :: "nat \<Rightarrow> string" where
  "uitoa n = (if n < 10 then [digit_char n] else uitoa (n div 10) @ [digit_char (n mod 10)])"

declare uitoa.simps [simp del]

definition big :: nat where
  "big = 16777215"

fun dtoi_loop :: "string \<Rightarrow> nat \<Rightarrow> nat \<Rightarrow> nat \<times> nat \<times> bool" where
  "dtoi_loop [] n i = (n, i, True)"
| "dtoi_loop (c # cs) n i =
     (case digit_val c of
        None \<Rightarrow> (n, i, True)
      | Some v \<Rightarrow> (let n' = n * 10 + v
                   in if n' \<ge> big then (big, i, False) else dtoi_loop cs n' (i + 1)))"

definition dtoi :: "string \<Rightarrow> nat \<times> nat \<times> bool" where
  "dtoi s = (case dtoi_loop s 0 0 of
               (n, i, ok) \<Rightarrow> if \<not> ok then (n, i, False)
                             else if i = 0 then (0, 0, False) else (n, i, True))"

text \<open>Hexadecimal, lower case, without leading zeros (\<open>appendHex\<close>) and its reader \<open>xtoi\<close>.\<close>

definition hex_char :: "nat \<Rightarrow> char" where
  "hex_char d = ''0123456789abcdef'' ! d"

fun appendHex :: "nat \<Rightarrow> string" where
  "appendHex n = (if n < 16 then [hex_char n] else appendHex (n div 16) @ [hex_char (n mod 16)])"

declare appendHex.simps [simp del]

definition hex_val :: "char \<Rightarrow> nat option" where
  "hex_val c = map_of (zip ''0123456789abcdefABCDEF''
                 [0, 1, 2, 3, 4, 5, 6, 7, 8, 9, 10, 11, 12, 13, 14, 15, 10, 11, 12, 13, 14, 15]) c"

fun xtoi_loop :: "string \<Rightarrow> nat \<Rightarrow> nat \<Rightarrow> nat \<times> nat \<times> bool" where
  "xtoi_loop [] n i = (n, i, True)"
| "xtoi_loop (c # cs) n i =
     (case hex_val c of
        None \<Rightarrow> (n, i, True)
      | Some v \<Rightarrow> (let n' = n * 16 + v
                   in if n' \<ge> big then (0, i, False) else xtoi_loop cs n' (i + 1)))"

definition xtoi :: "string \<Rightarrow> nat \<times> nat \<times> bool" where
  "xtoi s = (case xtoi_loop s 0 0 of
               (n, i, ok) \<Rightarrow> if \<not> ok then (n, i, False)
                             else if i = 0 then (0, i, False) else (n, i, True))"


section \<open>IP addresses and networks (Go: net.IP, net.IPNet, netlink.ParseAddr)\<close>

text \<open>
  An address is an IPv4 address of four bytes or an IPv6 address of 128 bits; a network
  (\<open>net.IPNet\<close>) is an address with a contiguous mask, kept as its prefix length.
  The source puts such networks into \<open>Config.Address\<close> and \<open>Peer.AllowedIPs\<close> and gets
  them back from the kernel's address and route lists.
\<close>

datatype ip = IPv4 byte byte byte byte | IPv6 "128 word"

datatype ipnet = IPNet (IP: ip) (MaskLen: nat)

datatype family = AF_INET | AF_INET6

text \<open>\<open>To4\<close>: the IPv4 form of an address, also of an IPv4-mapped IPv6 address.\<close>

fun To4 :: "ip \<Rightarrow> (byte \<times> byte \<times> byte \<times> byte) option" where
  "To4 (IPv4 a b c d) = Some (a, b, c, d)"
| "To4 (IPv6 w) =
     (if drop_bit 32 w = 0xffff
      then Some (ucast (drop_bit 24 w), ucast (drop_bit 16 w), ucast (drop_bit 8 w), ucast w)
      else None)"

definition ip_family :: "ip \<Rightarrow> family" where
  "ip_family a = (case To4 a of Some _ \<Rightarrow> AF_INET | None \<Rightarrow> AF_INET6)"

definition net_family :: "ipnet \<Rightarrow> family" where
  "net_family n = ip_family (IP n)"

definition ip_bits :: "ip \<Rightarrow> nat" where
  "ip_bits a = (case a of IPv4 _ _ _ _ \<Rightarrow> 32 | IPv6 _ \<Rightarrow> 128)"

definition groups16 :: "128 word \<Rightarrow> nat list" where
  "groups16 w = map (\<lambda>i. unat (take_bit 16 (drop_bit (16 * (7 - i)) w))) [0, 1, 2, 3, 4, 5, 6, 7]"

text \<open>
  The longest run of zero groups, the first of them when several are as long:
  \<open>(e0, e1)\<close> with the run at \<open>e0 ..< e1\<close>, and \<open>(0, 0)\<close> when there is none.
\<close>

fun zero_run :: "nat list \<Rightarrow> nat \<Rightarrow> nat \<times> nat \<Rightarrow> nat \<times> nat" where
  "zero_run [] i best = best"
| "zero_run (g # gs) i (e0, e1) =
     (let n = length (takeWhile (\<lambda>x. x = 0) (g # gs))
      in if n > 0 \<and> n > e1 - e0
         then zero_run (drop n gs) (i + n + 1) (i, i + n)
         else zero_run gs (i + 1) (e0, e1))"

text \<open>
  Printing the groups; the first argument counts the remaining iterations of the
  source's loop over at most eight groups.
\<close>

fun ip6_text :: "nat \<Rightarrow> nat list \<Rightarrow> nat \<times> nat \<Rightarrow> nat \<Rightarrow> string" where
  "ip6_text 0 gs run i = []"
| "ip6_text (Suc k) gs (e0, e1) i =
     (if i \<ge> 8 then []
      else if e0 < e1 \<and> i = e0
      then ''::'' @ (if e1 \<ge> 8 then [] else appendHex (gs ! e1) @ ip6_text k gs (e0, e1) (e1 + 1))
      else (if i > 0 then '':'' else []) @ appendHex (gs ! i) @ ip6_text k gs (e0, e1) (i + 1))"

definition dotted :: "nat \<Rightarrow> nat \<Rightarrow> nat \<Rightarrow> nat \<Rightarrow> string" where
  "dotted a b c d = uitoa a @ ''.'' @ uitoa b @ ''.'' @ uitoa c @ ''.'' @ uitoa d"

definition ip_String :: "ip \<Rightarrow> string" where
  "ip_String a =
     (case To4 a of
        Some (b0, b1, b2, b3) \<Rightarrow> dotted (unat b0) (unat b1) (unat b2) (unat b3)
      | None \<Rightarrow>
          (case a of
             IPv6 w \<Rightarrow>
               (let gs = groups16 w;
                    (e0, e1) = zero_run gs 0 (0, 0);
                    run = (if e1 - e0 \<le> 1 then (0, 0) else (e0, e1))
                in ip6_text 8 gs run 0)
           | IPv4 _ _ _ _ \<Rightarrow> []))"

text \<open>
  \<open>IPNet.String\<close>: the address as stored (host bits included), a slash and the prefix
  length. For an IPv4-mapped address under a 128-bit mask, the mask is read as the IPv4
  mask of its last 32 bits.
\<close>

definition IPNet_String :: "ipnet \<Rightarrow> string" where
  "IPNet_String n =
     (case n of IPNet a l \<Rightarrow>
        ip_String a @ ''/'' @
        uitoa (case a of
                 IPv4 _ _ _ _ \<Rightarrow> l
               | IPv6 _ \<Rightarrow> (if To4 a \<noteq> None then l - 96 else l)))"

text \<open>A route's destination is a pointer that is nil for a default route.\<close>

definition Dst_String :: "ipnet option \<Rightarrow> string" where
  "Dst_String d = (case d of None \<Rightarrow> ''<nil>'' | Some n \<Rightarrow> IPNet_String n)"


subsection \<open>Parsing (Go: net.ParseCIDR, netlink.ParseAddr)\<close>

datatype error =
    ParseError string
  | EEXIST
  | ESRCH
  | EINVAL
  | LinkNotFoundError
  | Fault string

text \<open>
  \<open>parseIPv4\<close>: four decimal numbers of at most 255 separated by dots, and nothing else.
  The first argument counts the octets still to read.
\<close>

fun parseIPv4_from :: "nat \<Rightarrow> nat \<Rightarrow> string \<Rightarrow> nat list \<Rightarrow> nat list option" where
  "parseIPv4_from 0 i s p = (if s \<noteq> [] then None else Some p)"
| "parseIPv4_from (Suc k) i s p =
     (if s = [] then None
      else (case (if i > 0 then (if hd s \<noteq> CHR ''.'' then None else Some (tl s)) else Some s) of
              None \<Rightarrow> None
            | Some s1 \<Rightarrow>
                (case dtoi s1 of
                   (n, c, ok) \<Rightarrow>
                     if \<not> ok \<or> n > 255 then None
                     else parseIPv4_from k (i + 1) (drop c s1) (p @ [n]))))"

definition parseIPv4 :: "string \<Rightarrow> nat list option" where
  "parseIPv4 s = parseIPv4_from 4 0 s []"

text \<open>
  \<open>parseIPv6\<close> without zone: hexadecimal groups separated by colons, at most one
  \<open>::\<close>, and possibly a trailing dotted IPv4 address. The loop state is the rest of the
  text, the byte position \<open>i\<close>, the position of the ellipsis and the sixteen bytes; the
  first argument counts the remaining iterations (the position grows by two in each).
\<close>

fun parseIPv6_loop ::
  "nat \<Rightarrow> string \<Rightarrow> nat \<Rightarrow> nat option \<Rightarrow> nat list \<Rightarrow> (string \<times> nat \<times> nat option \<times> nat list) option"
where
  "parseIPv6_loop 0 s i ell bs = Some (s, i, ell, bs)"
| "parseIPv6_loop (Suc k) s i ell bs =
     (if \<not> i < 16 then Some (s, i, ell, bs)
      else (case xtoi s of
              (n, c, ok) \<Rightarrow>
                if \<not> ok \<or> n > 65535 then None
                else if c < length s \<and> s ! c = CHR ''.''
                then (if ell = None \<and> i \<noteq> 12 then None
                      else if i + 4 > 16 then None
                      else (case parseIPv4 s of
                              None \<Rightarrow> None
                            | Some b4 \<Rightarrow> Some ([], i + 4, ell, take i bs @ b4 @ drop (i + 4) bs)))
                else (let bs' = bs[i := n div 256, i + 1 := n mod 256];
                          i' = i + 2;
                          s' = drop c s
                      in if s' = [] then Some (s', i', ell, bs')
                         else if hd s' \<noteq> CHR '':'' \<or> length s' = 1 then None
                         else (let s2 = tl s'
                               in if hd s2 = CHR '':''
                                  then (if ell \<noteq> None then None
                                        else (let s3 = tl s2
                                              in if s3 = [] then Some (s3, i', Some i', bs')
                                                 else parseIPv6_loop k s3 i' (Some i') bs'))
                                  else parseIPv6_loop k s2 i' ell bs'))))"

definition parseIPv6 :: "string \<Rightarrow> nat list option" where
  "parseIPv6 s0 =
     (let lead = (length s0 \<ge> 2 \<and> s0 ! 0 = CHR '':'' \<and> s0 ! 1 = CHR '':'');
          s = (if lead then drop 2 s0 else s0);
          ell0 = (if lead then Some 0 else None)
      in if lead \<and> s = [] then Some (replicate 16 0)
         else (case parseIPv6_loop 8 s 0 ell0 (replicate 16 0) of
                 None \<Rightarrow> None
               | Some (s', i, ell, bs) \<Rightarrow>
                   if s' \<noteq> [] then None
                   else if i < 16
                   then (case ell of
                           None \<Rightarrow> None
                         | Some e \<Rightarrow> Some (take e bs @ replicate (16 - i) 0 @ take (i - e) (drop e bs)))
                   else if ell \<noteq> None then None
                   else Some bs))"

definition word_of_bytes :: "nat list \<Rightarrow> 128 word" where
  "word_of_bytes bs = foldl (\<lambda>w b. push_bit 8 w + of_nat b) 0 bs"

text \<open>\<open>CIDRMask ones bits\<close>, byte by byte, and \<open>IP.Mask\<close>.\<close>

fun CIDRMask :: "nat \<Rightarrow> nat \<Rightarrow> byte list" where
  "CIDRMask ones 0 = []"
| "CIDRMask ones (Suc l) =
     (if ones \<ge> 8 then 0xff # CIDRMask (ones - 8) l
      else NOT (drop_bit ones 0xff) # CIDRMask 0 l)"

definition ip_Mask :: "ip \<Rightarrow> nat \<Rightarrow> ip" where
  "ip_Mask a l =
     (case a of
        IPv4 b0 b1 b2 b3 \<Rightarrow>
          (case CIDRMask l 4 of
             [m0, m1, m2, m3] \<Rightarrow> IPv4 (b0 AND m0) (b1 AND m1) (b2 AND m2) (b3 AND m3)
           | _ \<Rightarrow> a)
      | IPv6 w \<Rightarrow> IPv6 (w AND NOT (mask (128 - l))))"

text \<open>
  \<open>parseCIDR\<close> returns the address as written and the network (the address with its host
  bits cleared, and the mask), the two results of \<open>net.ParseCIDR\<close>.
\<close>

definition index_byte :: "string \<Rightarrow> char \<Rightarrow> nat option" where
  "index_byte s c = (if c \<in> set s then Some (length (takeWhile (\<lambda>x. x \<noteq> c) s)) else None)"

definition parseCIDR :: "string \<Rightarrow> error + (ip \<times> ipnet)" where
  "parseCIDR s =
     (case index_byte s CHR ''/'' of
        None \<Rightarrow> Inl (ParseError s)
      | Some i \<Rightarrow>
          (let addr = take i s; msk = drop (i + 1) s;
               ip4 = parseIPv4 addr;
               a = (case ip4 of
                      Some [b0, b1, b2, b3] \<Rightarrow> Some (IPv4 (of_nat b0) (of_nat b1) (of_nat b2) (of_nat b3))
                    | Some _ \<Rightarrow> None
                    | None \<Rightarrow> map_option (\<lambda>bs. IPv6 (word_of_bytes bs)) (parseIPv6 addr));
               iplen = (if ip4 = None then 16 else 4)
           in (case dtoi msk of
                 (n, c, ok) \<Rightarrow>
                   (case a of
                      None \<Rightarrow> Inl (ParseError s)
                    | Some a' \<Rightarrow>
                        if \<not> ok \<or> c \<noteq> length msk \<or> n > 8 * iplen then Inl (ParseError s)
                        else Inr (a', IPNet (ip_Mask a' n) n)))))"

definition ParseCIDR_net :: "string \<Rightarrow> error + ipnet" where
  "ParseCIDR_net s = (case parseCIDR s of Inl e \<Rightarrow> Inl e | Inr (a, n) \<Rightarrow> Inr n)"

text \<open>
  \<open>netlink.ParseAddr\<close>: the text before the first space is parsed as a CIDR; the
  address keeps its host bits and takes the mask of the network.
\<close>

definition ParseAddr :: "string \<Rightarrow> error + ipnet" where
  "ParseAddr s =
     (case parseCIDR (takeWhile (\<lambda>c. c \<noteq> CHR '' '') s) of
        Inl e \<Rightarrow> Inl e
      | Inr (a, n) \<Rightarrow> Inr (IPNet a (MaskLen n)))"


section \<open>The configuration (src/wg.go, Config)\<close>

type_synonym Key = "byte list"

record Peer =
  PublicKey :: Key
  AllowedIPs :: "ipnet list"
  Endpoint :: "string option"

record Config =
  PrivateKey :: "Key option"
  ListenPort :: "int option"
  Peers :: "Peer list"
  Address :: "ipnet list"
  DNS :: "ip list"
  MTU :: int
  Table :: int
  PreUp :: string
  PostUp :: string
  PreDown :: string
  PostDown :: string
  SaveConfig :: bool

section \<open>The kernel and the device driver, as the source calls them\<close>

text \<open>
  The calls the source makes on netlink, on the wireguard control client and on the
  \<open>ip\<close> command. The state is that of the one interface the calls name: whether the link
  exists and is up, its addresses and its routes. \<open>fault\<close> stands for every failure the
  state does not explain (permissions, a driver that rejects a configuration): given the
  calls made so far and the call at hand it may return an error, and then the call has no
  effect. \<open>trace\<close> records every call issued, in order, failed ones included.
\<close>

datatype call =
    LinkByName_call string
  | LinkAdd_call string
  | Exec_ip_link_add_call string
  | LinkSetUp_call string
  | New_call
  | ConfigureDevice_call string
  | AddrList_call family
  | AddrAdd_call ipnet
  | AddrDel_call ipnet
  | RouteList_call family
  | RouteAdd_call ipnet
  | RouteDel_call ipnet

record kernel =
  link_exists :: bool
  link_up :: bool
  addrs :: "ipnet list"
  routes :: "ipnet list"
  fault :: "call list \<Rightarrow> call \<Rightarrow> error option"
  trace :: "call list"

definition issue :: "call \<Rightarrow> kernel \<Rightarrow> kernel" where
  "issue c k = k\<lparr>trace := trace k @ [c]\<rparr>"

definition LinkByName :: "string \<Rightarrow> kernel \<Rightarrow> error option \<times> kernel" where
  "LinkByName iface k =
     (case fault k (trace k) (LinkByName_call iface) of
        Some e \<Rightarrow> (Some e, issue (LinkByName_call iface) k)
      | None \<Rightarrow> (if link_exists k then None else Some LinkNotFoundError,
                 issue (LinkByName_call iface) k))"

definition LinkAdd :: "string \<Rightarrow> kernel \<Rightarrow> error option \<times> kernel" where
  "LinkAdd iface k =
     (case fault k (trace k) (LinkAdd_call iface) of
        Some e \<Rightarrow> (Some e, issue (LinkAdd_call iface) k)
      | None \<Rightarrow> if link_exists k then (Some EEXIST, issue (LinkAdd_call iface) k)
                else (None, issue (LinkAdd_call iface) (k\<lparr>link_exists := True\<rparr>)))"

definition Exec_ip_link_add :: "string \<Rightarrow> kernel \<Rightarrow> error option \<times> kernel" where
  "Exec_ip_link_add iface k =
     (case fault k (trace k) (Exec_ip_link_add_call iface) of
        Some e \<Rightarrow> (Some e, issue (Exec_ip_link_add_call iface) k)
      | None \<Rightarrow> if link_exists k then (Some EEXIST, issue (Exec_ip_link_add_call iface) k)
                else (None, issue (Exec_ip_link_add_call iface) (k\<lparr>link_exists := True\<rparr>)))"

definition LinkSetUp :: "string \<Rightarrow> kernel \<Rightarrow> error option \<times> kernel" where
  "LinkSetUp iface k =
     (case fault k (trace k) (LinkSetUp_call iface) of
        Some e \<Rightarrow> (Some e, issue (LinkSetUp_call iface) k)
      | None \<Rightarrow> (None, issue (LinkSetUp_call iface) (k\<lparr>link_up := True\<rparr>)))"

definition wireguardctrl_New :: "kernel \<Rightarrow> error option \<times> kernel" where
  "wireguardctrl_New k =
     (case fault k (trace k) New_call of
        Some e \<Rightarrow> (Some e, issue New_call k)
      | None \<Rightarrow> (None, issue New_call k))"

definition ConfigureDevice :: "string \<Rightarrow> kernel \<Rightarrow> error option \<times> kernel" where
  "ConfigureDevice iface k =
     (case fault k (trace k) (ConfigureDevice_call iface) of
        Some e \<Rightarrow> (Some e, issue (ConfigureDevice_call iface) k)
      | None \<Rightarrow> (None, issue (ConfigureDevice_call iface) k))"

text \<open>
  Addresses. \<open>AddrList\<close> returns the addresses of one family. \<open>AddrAdd\<close> is the
  exclusive create of netlink: an address the interface already has is refused with
  \<open>EEXIST\<close>.
\<close>

definition AddrList :: "family \<Rightarrow> kernel \<Rightarrow> (error + ipnet list) \<times> kernel" where
  "AddrList fam k =
     (case fault k (trace k) (AddrList_call fam) of
        Some e \<Rightarrow> (Inl e, issue (AddrList_call fam) k)
      | None \<Rightarrow> (Inr (filter (\<lambda>a. net_family a = fam) (addrs k)), issue (AddrList_call fam) k))"

definition AddrAdd :: "ipnet \<Rightarrow> kernel \<Rightarrow> error option \<times> kernel" where
  "AddrAdd a k =
     (case fault k (trace k) (AddrAdd_call a) of
        Some e \<Rightarrow> (Some e, issue (AddrAdd_call a) k)
      | None \<Rightarrow> if a \<in> set (addrs k) then (Some EEXIST, issue (AddrAdd_call a) k)
                else (None, issue (AddrAdd_call a) (k\<lparr>addrs := addrs k @ [a]\<rparr>)))"

text \<open>
  Routes. A route is kept by its destination. \<open>RouteList\<close> returns the routes of one
  family, a default route (prefix length 0) with a nil destination. \<open>RouteAdd\<close> is an
  exclusive create as well, and the kernel refuses an IPv4 destination with host bits set
  and stores an IPv6 destination with its host bits cleared. \<open>RouteDel\<close> of a route the
  interface does not have is refused with \<open>ESRCH\<close>.
\<close>

definition net_masked :: "ipnet \<Rightarrow> ipnet" where
  "net_masked n = IPNet (ip_Mask (IP n) (MaskLen n)) (MaskLen n)"

definition RouteList :: "family \<Rightarrow> kernel \<Rightarrow> (error + ipnet option list) \<times> kernel" where
  "RouteList fam k =
     (case fault k (trace k) (RouteList_call fam) of
        Some e \<Rightarrow> (Inl e, issue (RouteList_call fam) k)
      | None \<Rightarrow> (Inr (map (\<lambda>d. if MaskLen d = 0 then None else Some d)
                       (filter (\<lambda>d. net_family d = fam) (routes k))),
                 issue (RouteList_call fam) k))"

definition RouteAdd :: "ipnet \<Rightarrow> kernel \<Rightarrow> error option \<times> kernel" where
  "RouteAdd d k =
     (case fault k (trace k) (RouteAdd_call d) of
        Some e \<Rightarrow> (Some e, issue (RouteAdd_call d) k)
      | None \<Rightarrow>
          if MaskLen d > ip_bits (IP d) \<or> (ip_bits (IP d) = 32 \<and> net_masked d \<noteq> d)
          then (Some EINVAL, issue (RouteAdd_call d) k)
          else if net_masked d \<in> set (routes k) then (Some EEXIST, issue (RouteAdd_call d) k)
          else (None, issue (RouteAdd_call d) (k\<lparr>routes := routes k @ [net_masked d]\<rparr>)))"

definition RouteDel :: "ipnet \<Rightarrow> kernel \<Rightarrow> error option \<times> kernel" where
  "RouteDel d k =
     (case fault k (trace k) (RouteDel_call d) of
        Some e \<Rightarrow> (Some e, issue (RouteDel_call d) k)
      | None \<Rightarrow> if d \<notin> set (routes k) then (Some ESRCH, issue (RouteDel_call d) k)
                else (None, issue (RouteDel_call d) (k\<lparr>routes := removeAll d (routes k)\<rparr>)))"


section \<open>Reconciliation (src/wg.go, syncAddress and syncRoutes)\<close>

text \<open>
  The Go map from canonical string to flag is an association list with distinct keys.
  Go leaves the order of \<open>range\<close> over a map open, so the order is a parameter \<open>ord\<close>
  of the functions that range over the map: it returns the entries in the order the
  run time visits them.
\<close>

type_synonym presence = "(string \<times> int) list"

definition range_order :: "(presence \<Rightarrow> presence) \<Rightarrow> bool" where
  "range_order ord = (\<forall>m. mset (ord m) = mset m)"

definition observed_addresses :: "ipnet list \<Rightarrow> presence" where
  "observed_addresses as = foldl (\<lambda>m a. AList.update (IPNet_String a) 1 m) [] as"

fun syncAddress_add :: "ipnet list \<Rightarrow> presence \<Rightarrow> kernel \<Rightarrow> (error + presence) \<times> kernel" where
  "syncAddress_add [] m k = (Inr m, k)"
| "syncAddress_add (addr # rest) m k =
     (let present = (map_of m (IPNet_String addr) \<noteq> None);
          m' = AList.update (IPNet_String addr) 2 m
      in if present then syncAddress_add rest m' k
         else (case AddrAdd addr k of
                 (Some e, k') \<Rightarrow> (Inl e, k')
               | (None, k') \<Rightarrow> syncAddress_add rest m' k'))"

fun syncAddress_clean :: "presence \<Rightarrow> kernel \<Rightarrow> error option \<times> kernel" where
  "syncAddress_clean [] k = (None, k)"
| "syncAddress_clean ((addr, p) # rest) k =
     (if p < 2
      then (case ParseAddr addr of
              Inl e \<Rightarrow> (Some e, k)
            | Inr nlAddr \<Rightarrow>
                (case AddrAdd nlAddr k of
                   (Some e, k') \<Rightarrow> (Some e, k')
                 | (None, k') \<Rightarrow> syncAddress_clean rest k'))
      else syncAddress_clean rest k)"

definition syncAddress :: "(presence \<Rightarrow> presence) \<Rightarrow> Config \<Rightarrow> kernel \<Rightarrow> error option \<times> kernel" where
  "syncAddress ord cfg k =
     (case AddrList AF_INET k of
        (Inl e, k1) \<Rightarrow> (Some e, k1)
      | (Inr as, k1) \<Rightarrow>
          (case syncAddress_add (Address cfg) (observed_addresses as) k1 of
             (Inl e, k2) \<Rightarrow> (Some e, k2)
           | (Inr presentAddresses, k2) \<Rightarrow> syncAddress_clean (ord presentAddresses) k2))"

definition observed_routes :: "ipnet option list \<Rightarrow> presence" where
  "observed_routes rs = foldl (\<lambda>m d. AList.update (Dst_String d) 1 m) [] rs"

fun syncRoutes_peer :: "ipnet list \<Rightarrow> presence \<Rightarrow> kernel \<Rightarrow> (error + presence) \<times> kernel" where
  "syncRoutes_peer [] m k = (Inr m, k)"
| "syncRoutes_peer (rt # rest) m k =
     (let present = (map_of m (IPNet_String rt) \<noteq> None);
          m' = AList.update (IPNet_String rt) 2 m
      in if present then syncRoutes_peer rest m' k
         else (case RouteAdd rt k of
                 (Some e, k') \<Rightarrow> (Inl e, k')
               | (None, k') \<Rightarrow> syncRoutes_peer rest m' k'))"

fun syncRoutes_peers :: "Peer list \<Rightarrow> presence \<Rightarrow> kernel \<Rightarrow> (error + presence) \<times> kernel" where
  "syncRoutes_peers [] m k = (Inr m, k)"
| "syncRoutes_peers (peer # rest) m k =
     (case syncRoutes_peer (AllowedIPs peer) m k of
        (Inl e, k') \<Rightarrow> (Inl e, k')
      | (Inr m', k') \<Rightarrow> syncRoutes_peers rest m' k')"

fun syncRoutes_clean :: "presence \<Rightarrow> kernel \<Rightarrow> error option \<times> kernel" where
  "syncRoutes_clean [] k = (None, k)"
| "syncRoutes_clean ((rtStr, p) # rest) k =
     (case ParseCIDR_net rtStr of
        Inl e \<Rightarrow> (Some e, k)
      | Inr rt \<Rightarrow>
          if p < 2
          then (case RouteDel rt k of
                  (Some e, k') \<Rightarrow> (Some e, k')
                | (None, k') \<Rightarrow> syncRoutes_clean rest k')
          else syncRoutes_clean rest k)"

definition syncRoutes :: "(presence \<Rightarrow> presence) \<Rightarrow> Config \<Rightarrow> kernel \<Rightarrow> error option \<times> kernel" where
  "syncRoutes ord cfg k =
     (case RouteList AF_INET k of
        (Inl e, k1) \<Rightarrow> (Some e, k1)
      | (Inr rs, k1) \<Rightarrow>
          (case syncRoutes_peers (Peers cfg) (observed_routes rs) k1 of
             (Inl e, k2) \<Rightarrow> (Some e, k2)
           | (Inr presentRoutes, k2) \<Rightarrow> syncRoutes_clean (ord presentRoutes) k2))"

section \<open>Bringing the interface up (src/wg.go, Up)\<close>

definition Up :: "(presence \<Rightarrow> presence) \<Rightarrow> Config \<Rightarrow> string \<Rightarrow> kernel \<Rightarrow> error option \<times> kernel" where
  "Up ord cfg iface k =
     (case (case LinkByName iface k of
              (Some err, k1) \<Rightarrow>
                if err \<noteq> LinkNotFoundError then (Some err, k1)
                else (case LinkAdd iface k1 of
                        (Some e, k2) \<Rightarrow> (Some e, k2)
                      | (None, k2) \<Rightarrow>
                          (case Exec_ip_link_add iface k2 of
                             (_, k3) \<Rightarrow> LinkByName iface k3))
            | (None, k1) \<Rightarrow> (None, k1)) of
        (Some e, k4) \<Rightarrow> (Some e, k4)
      | (None, k4) \<Rightarrow>
          (case LinkSetUp iface k4 of
             (Some e, k5) \<Rightarrow> (Some e, k5)
           | (None, k5) \<Rightarrow>
               (case wireguardctrl_New k5 of
                  (Some e, k6) \<Rightarrow> (Some e, k6)
                | (None, k6) \<Rightarrow>
                    (case ConfigureDevice iface k6 of
                       (Some e, k7) \<Rightarrow> (Some e, k7)
                     | (None, k7) \<Rightarrow>
                         (case syncAddress ord cfg k7 of
                            (Some e, k8) \<Rightarrow> (Some e, k8)
                          | (None, k8) \<Rightarrow> syncRoutes ord cfg k8)))))"

section \<open>Well-formed networks and kernel states\<close>

text \<open>
  A network is canonical when its address is in the form Go and netlink produce (an IPv4
  address is not given as an IPv4-mapped IPv6 address) and its prefix length fits the
  address. The kernel keeps canonical addresses, and canonical route destinations without
  host bits.
\<close>

definition plain_ip :: "ip \<Rightarrow> bool" where
  "plain_ip a = (case a of IPv4 _ _ _ _ \<Rightarrow> True | IPv6 _ \<Rightarrow> To4 a = None)"

definition canonical :: "ipnet \<Rightarrow> bool" where
  "canonical n = (plain_ip (IP n) \<and> MaskLen n \<le> ip_bits (IP n))"

definition addrs_ok :: "kernel \<Rightarrow> bool" where
  "addrs_ok k = (\<forall>a \<in> set (addrs k). canonical a)"

definition routes_ok :: "kernel \<Rightarrow> bool" where
  "routes_ok k = (\<forall>d \<in> set (routes k). canonical d \<and> net_masked d = d)"

definition kernel_ok :: "kernel \<Rightarrow> bool" where
  "kernel_ok k = (addrs_ok k \<and> routes_ok k)"

text \<open>The calls that change the interface's addresses or routes.\<close>

fun is_mutation :: "call \<Rightarrow> bool" where
  "is_mutation (AddrAdd_call _) = True"
| "is_mutation (AddrDel_call _) = True"
| "is_mutation (RouteAdd_call _) = True"
| "is_mutation (RouteDel_call _) = True"
| "is_mutation _ = False"

definition mutations :: "call list \<Rightarrow> call list" where
  "mutations t = filter is_mutation t"

text \<open>All allowed-IPs of all peers, in the order the source visits them.\<close>

definition desired_routes :: "Config \<Rightarrow> ipnet list" where
  "desired_routes cfg = concat (map AllowedIPs (Peers cfg))"

text \<open>Configurations whose allowed-IPs, and whose addresses, are all canonical.\<close>

definition canonical_routes :: "Config \<Rightarrow> bool" where
  "canonical_routes cfg = (\<forall>d \<in> set (desired_routes cfg). canonical d)"

definition canonical_addresses :: "Config \<Rightarrow> bool" where
  "canonical_addresses cfg = (\<forall>a \<in> set (Address cfg). canonical a)"

definition canonical_config :: "Config \<Rightarrow> bool" where
  "canonical_config cfg = (canonical_addresses cfg \<and> canonical_routes cfg)"

text \<open>Address sync followed by route sync, as \<open>Up\<close> runs them.\<close>

definition sync :: "(presence \<Rightarrow> presence) \<Rightarrow> Config \<Rightarrow> kernel \<Rightarrow> error option \<times> kernel" where
  "sync ord cfg k =
     (case syncAddress ord cfg k of
        (Some e, k') \<Rightarrow> (Some e, k')
      | (None, k') \<Rightarrow> syncRoutes ord cfg k')"

section \<open>Concrete configurations and kernel states\<close>

text \<open>An interface that is up, without addresses and routes, on a kernel without faults.\<close>

definition kernel_init :: kernel where
  "kernel_init =
     \<lparr>link_exists = True, link_up = True, addrs = [], routes = [],
      fault = (\<lambda>_ _. None), trace = []\<rparr>"

text \<open>The zero value of \<open>Config\<close>.\<close>

definition config_init :: Config where
  "config_init =
     \<lparr>PrivateKey = None, ListenPort = None, Peers = [], Address = [], DNS = [],
      MTU = 0, Table = 0, PreUp = [], PostUp = [], PreDown = [], PostDown = [],
      SaveConfig = False\<rparr>"

definition peer_of :: "ipnet list \<Rightarrow> Peer" where
  "peer_of ips = \<lparr>PublicKey = replicate 32 0, AllowedIPs = ips, Endpoint = None\<rparr>"

text \<open>Scenario B of the specification: one desired address, which is present, and a stale one.\<close>

definition config_B :: Config where
  "config_B = config_init\<lparr>Address := [IPNet (IPv4 10 0 0 2) 24]\<rparr>"

definition kernel_B :: kernel where
  "kernel_B = kernel_init\<lparr>addrs := [IPNet (IPv4 10 0 0 2) 24, IPNet (IPv4 192 168 1 1) 24]\<rparr>"

text \<open>Scenario C: two peers that share an allowed-IP, on an interface with a stale route.\<close>

definition config_C :: Config where
  "config_C = config_init\<lparr>Peers :=
     [peer_of [IPNet (IPv4 10 0 0 0) 24],
      peer_of [IPNet (IPv4 10 0 0 0) 24, IPNet (IPv4 10 1 0 0) 24]]\<rparr>"

definition kernel_C :: kernel where
  "kernel_C = kernel_init\<lparr>routes := [IPNet (IPv4 10 9 0 0) 16]\<rparr>"

text \<open>An interface that carries the IPv6 route \<open>fd00::/64\<close>.\<close>

definition kernel_v6 :: kernel where
  "kernel_v6 = kernel_init\<lparr>routes := [IPNet (IPv6 0xfd000000000000000000000000000000) 64]\<rparr>"

text \<open>A peer that is allowed every IPv4 destination.\<close>

definition config_default :: Config where
  "config_default = config_init\<lparr>Peers := [peer_of [IPNet (IPv4 0 0 0 0) 0]]\<rparr>"



section \<open>The phases of bringing an interface up\<close>

text \<open>
  The specification's phases, each as the part of \<open>Up\<close> that carries it out:
  ensure-interface is the lookup of the link with its creation when it is not found,
  set-up is \<open>netlink.LinkSetUp\<close>, push-device-config is the creation of the control
  client and \<open>ConfigureDevice\<close>.
\<close>

definition ensure_interface :: "string \<Rightarrow> kernel \<Rightarrow> error option \<times> kernel" where
  "ensure_interface iface k =
     (case LinkByName iface k of
        (Some err, k1) \<Rightarrow>
          if err \<noteq> LinkNotFoundError then (Some err, k1)
          else (case LinkAdd iface k1 of
                  (Some e, k2) \<Rightarrow> (Some e, k2)
                | (None, k2) \<Rightarrow>
                    (case Exec_ip_link_add iface k2 of
                       (_, k3) \<Rightarrow> LinkByName iface k3))
      | (None, k1) \<Rightarrow> (None, k1))"

definition push_device_config :: "string \<Rightarrow> kernel \<Rightarrow> error option \<times> kernel" where
  "push_device_config iface k =
     (case wireguardctrl_New k of
        (Some e, k1) \<Rightarrow> (Some e, k1)
      | (None, k1) \<Rightarrow> ConfigureDevice iface k1)"

text \<open>
  Running phases in order: the first error ends the run and is the result, and the
  phases after it are not started.
\<close>

fun run_phases :: "(kernel \<Rightarrow> error option \<times> kernel) list \<Rightarrow> kernel \<Rightarrow> error option \<times> kernel" where
  "run_phases [] k = (None, k)"
| "run_phases (p # ps) k =
     (case p k of
        (Some e, k') \<Rightarrow> (Some e, k')
      | (None, k') \<Rightarrow> run_phases ps k')"

text \<open>The calls that the two reconcilers make.\<close>

fun is_sync_call :: "call \<Rightarrow> bool" where
  "is_sync_call (AddrList_call _) = True"
| "is_sync_call (AddrAdd_call _) = True"
| "is_sync_call (AddrDel_call _) = True"
| "is_sync_call (RouteList_call _) = True"
| "is_sync_call (RouteAdd_call _) = True"
| "is_sync_call (RouteDel_call _) = True"
| "is_sync_call _ = False"

text \<open>Scenario D: the driver rejects every device configuration of \<open>wg0\<close>.\<close>

definition kernel_D :: kernel where
  "kernel_D =
     kernel_init\<lparr>fault := (\<lambda>t c. if c = ConfigureDevice_call ''wg0''
                                  then Some (Fault ''device configuration rejected'') else None)\<rparr>"

text \<open>A call that adds an address with the given canonical string.\<close>

definition is_add_of :: "string \<Rightarrow> call \<Rightarrow> bool" where
  "is_add_of s c = (case c of AddrAdd_call a \<Rightarrow> IPNet_String a = s | _ \<Rightarrow> False)"

text \<open>A configuration that names the address 10.0.0.2/24 twice.\<close>

definition config_dup :: Config where
  "config_dup = config_init\<lparr>Address := [IPNet (IPv4 10 0 0 2) 24, IPNet (IPv4 10 0 0 2) 24]\<rparr>"

text \<open>
  A configuration within the family the reconcilers list: every address and every
  allowed-IP is an IPv4 network, and no allowed-IP is a default route.
\<close>

definition ipv4_config :: "Config \<Rightarrow> bool" where
  "ipv4_config cfg =
     ((\<forall>a \<in> set (Address cfg). net_family a = AF_INET) \<and>
      (\<forall>d \<in> set (desired_routes cfg). net_family d = AF_INET \<and> MaskLen d \<noteq> 0))"

text \<open>A configuration with the IPv6 address fd00::1/64.\<close>

definition config_v6 :: Config where
  "config_v6 = config_init\<lparr>Address := [IPNet (IPv6 0xfd000000000000000000000000000001) 64]\<rparr>"

text \<open>Scenario C with a third peer, which is allowed the IPv6 prefix fd00::/64.\<close>

definition config_C6 :: Config where
  "config_C6 = config_init\<lparr>Peers :=
     [peer_of [IPNet (IPv4 10 0 0 0) 24],
      peer_of [IPNet (IPv4 10 0 0 0) 24, IPNet (IPv4 10 1 0 0) 24],
      peer_of [IPNet (IPv6 0xfd000000000000000000000000000000) 64]]\<rparr>"

text \<open>An interface that already has the address 10.0.0.2/24.\<close>

definition kernel_B1 :: kernel where
  "kernel_B1 = kernel_init\<lparr>addrs := [IPNet (IPv4 10 0 0 2) 24]\<rparr>"


text \<open>Scenario C with the desired address 10.0.0.2/24.\<close>

definition config_full :: Config where
  "config_full = config_C\<lparr>Address := [IPNet (IPv4 10 0 0 2) 24]\<rparr>"

text \<open>A peer that is allowed the IPv6 prefix fd00::/64.\<close>

definition config_r6 :: Config where
  "config_r6 = config_init\<lparr>Peers := [peer_of [IPNet (IPv6 0xfd000000000000000000000000000000) 64]]\<rparr>"


section \<open>Text of numbers and networks: reading back what was printed\<close>


lemma lt10_cases: "(d::nat) < 10 \<Longrightarrow> d = 0 \<or> d = 1 \<or> d = 2 \<or> d = 3 \<or> d = 4 \<or> d = 5 \<or> d = 6 \<or> d = 7 \<or> d = 8 \<or> d = 9"
  by arith

lemma mult10_less_big: "(x::nat) * 10 + r < big \<Longrightarrow> x < big"
  by arith

lemma digit_val_digit_char: "d < 10 \<Longrightarrow> digit_val (digit_char d) = Some d"
  using lt10_cases [of d] by (auto simp: digit_val_def digit_char_def)

lemma digit_char_in: "d < 10 \<Longrightarrow> digit_char d \<in> set ''0123456789''"
  using lt10_cases [of d] by (auto simp: digit_char_def)

lemma uitoa_chars: "set (uitoa n) \<subseteq> set ''0123456789''"
proof (induction n rule: uitoa.induct)
  case (1 n)
  show ?case
  proof (cases "n < 10")
    case True
    then show ?thesis using digit_char_in [of n] by (subst uitoa.simps) simp
  next
    case False
    have "n mod 10 < 10" by simp
    then have "digit_char (n mod 10) \<in> set ''0123456789''" by (rule digit_char_in)
    with False 1 show ?thesis by (subst uitoa.simps) simp
  qed
qed

lemma uitoa_not_Nil: "uitoa n \<noteq> []"
  by (subst uitoa.simps) simp

lemma dtoi_loop_uitoa:
  "acc * 10 ^ length (uitoa n) + n < big \<Longrightarrow>
   dtoi_loop (uitoa n @ rest) acc i =
   dtoi_loop rest (acc * 10 ^ length (uitoa n) + n) (i + length (uitoa n))"
proof (induction n arbitrary: rest rule: uitoa.induct)
  case (1 n)
  show ?case
  proof (cases "n < 10")
    case True
    then have u: "uitoa n = [digit_char n]" by (subst uitoa.simps) simp
    from "1.prems" True show ?thesis
      by (simp add: u digit_val_digit_char Let_def)
  next
    case False
    let ?q = "n div 10" and ?r = "n mod 10"
    have u: "uitoa n = uitoa ?q @ [digit_char ?r]" using False by (subst uitoa.simps) simp
    have len: "length (uitoa n) = Suc (length (uitoa ?q))" by (simp add: u)
    have n: "n = ?q * 10 + ?r" by simp
    have eq: "acc * 10 ^ length (uitoa n) + n = (acc * 10 ^ length (uitoa ?q) + ?q) * 10 + ?r"
      by (simp add: len algebra_simps)
    have small: "(acc * 10 ^ length (uitoa ?q) + ?q) * 10 + ?r < big"
      by (rule subst [OF eq]) (rule "1.prems")
    then have small': "acc * 10 ^ length (uitoa ?q) + ?q < big" by (rule mult10_less_big)
    have "dtoi_loop (uitoa n @ rest) acc i = dtoi_loop (uitoa ?q @ (digit_char ?r # rest)) acc i"
      by (simp add: u)
    also have "\<dots> = dtoi_loop (digit_char ?r # rest) (acc * 10 ^ length (uitoa ?q) + ?q) (i + length (uitoa ?q))"
      using False small' by (rule "1.IH")
    also have "\<dots> = dtoi_loop rest ((acc * 10 ^ length (uitoa ?q) + ?q) * 10 + ?r) (i + length (uitoa ?q) + 1)"
      using small by (simp add: digit_val_digit_char Let_def)
    finally have f: "dtoi_loop (uitoa n @ rest) acc i =
        dtoi_loop rest ((acc * 10 ^ length (uitoa ?q) + ?q) * 10 + ?r) (i + length (uitoa ?q) + 1)" .
    have i: "i + length (uitoa n) = i + length (uitoa ?q) + 1" by (simp add: len)
    show ?thesis by (simp only: f eq i)
  qed
qed

lemma dtoi_uitoa:
  assumes "n < big" and "rest = [] \<or> digit_val (hd rest) = None"
  shows "dtoi (uitoa n @ rest) = (n, length (uitoa n), True)"
proof -
  have "dtoi_loop (uitoa n @ rest) 0 0 = dtoi_loop rest n (length (uitoa n))"
    using dtoi_loop_uitoa [of 0 n rest 0] assms(1) by simp
  also have "\<dots> = (n, length (uitoa n), True)"
    using assms(2) by (cases rest) auto
  finally show ?thesis using uitoa_not_Nil [of n] by (simp add: dtoi_def)
qed


lemma le255_big: "n \<le> 255 \<Longrightarrow> n < big"
  by (simp add: big_def)

lemma digit_val_dot: "digit_val CHR ''.'' = None"
  by (simp add: digit_val_def)

lemma parseIPv4_from_first:
  assumes "n \<le> 255" and "rest = [] \<or> digit_val (hd rest) = None"
  shows "parseIPv4_from (Suc k) 0 (uitoa n @ rest) p = parseIPv4_from k 1 rest (p @ [n])"
  using assms uitoa_not_Nil [of n]
  by (simp add: dtoi_uitoa le255_big)

lemma parseIPv4_from_end: "parseIPv4_from 0 i [] p = Some p"
  by simp

lemma parseIPv4_from_next:
  assumes "n \<le> 255" and "rest = [] \<or> digit_val (hd rest) = None" and "0 < i"
  shows "parseIPv4_from (Suc k) i (CHR ''.'' # uitoa n @ rest) p = parseIPv4_from k (i + 1) rest (p @ [n])"
  using assms by (simp add: dtoi_uitoa le255_big)

declare parseIPv4_from.simps [simp del]

lemma parseIPv4_from_last:
  assumes "d \<le> 255" and "0 < i"
  shows "parseIPv4_from (Suc 0) i (CHR ''.'' # uitoa d) p = Some (p @ [d])"
  using parseIPv4_from_next [of d "[]" i 0 p] assms by (simp add: parseIPv4_from_end)

lemma parseIPv4_from_last2:
  assumes "c \<le> 255" and "d \<le> 255" and "0 < i"
  shows "parseIPv4_from (Suc (Suc 0)) i (CHR ''.'' # uitoa c @ CHR ''.'' # uitoa d) p = Some (p @ [c, d])"
  using parseIPv4_from_next [of c "CHR ''.'' # uitoa d" i "Suc 0" p] assms
  by (simp add: digit_val_dot parseIPv4_from_last)

lemma parseIPv4_from_last3:
  assumes "b \<le> 255" and "c \<le> 255" and "d \<le> 255" and "0 < i"
  shows "parseIPv4_from (Suc (Suc (Suc 0))) i (CHR ''.'' # uitoa b @ CHR ''.'' # uitoa c @ CHR ''.'' # uitoa d) p =
         Some (p @ [b, c, d])"
  using parseIPv4_from_next [of b "CHR ''.'' # uitoa c @ CHR ''.'' # uitoa d" i "Suc (Suc 0)" p] assms
  by (simp add: digit_val_dot parseIPv4_from_last2)

lemma parseIPv4_dotted:
  assumes "a \<le> 255" "b \<le> 255" "c \<le> 255" "d \<le> 255"
  shows "parseIPv4 (dotted a b c d) = Some [a, b, c, d]"
proof -
  have "parseIPv4 (dotted a b c d) =
        parseIPv4_from (Suc (Suc (Suc (Suc 0)))) 0
          (uitoa a @ (CHR ''.'' # uitoa b @ CHR ''.'' # uitoa c @ CHR ''.'' # uitoa d)) []"
    by (simp add: parseIPv4_def dotted_def numeral_eq_Suc)
  also have "\<dots> = parseIPv4_from (Suc (Suc (Suc 0))) 1
          (CHR ''.'' # uitoa b @ CHR ''.'' # uitoa c @ CHR ''.'' # uitoa d) [a]"
    using parseIPv4_from_first [of a "CHR ''.'' # uitoa b @ CHR ''.'' # uitoa c @ CHR ''.'' # uitoa d" "Suc (Suc (Suc 0))" "[]"]
      assms(1) by (simp add: digit_val_dot)
  also have "\<dots> = Some ([a] @ [b, c, d])"
    using assms by (intro parseIPv4_from_last3) simp_all
  finally show ?thesis by simp
qed

lemma dotted_chars_gen:
  assumes "set (uitoa a) \<subseteq> D" "set (uitoa b) \<subseteq> D" "set (uitoa c) \<subseteq> D" "set (uitoa d) \<subseteq> D"
  shows "set (dotted a b c d) \<subseteq> insert CHR ''.'' D"
  using assms by (auto simp: dotted_def)

lemma dotted_chars: "set (dotted a b c d) \<subseteq> insert CHR ''.'' (set ''0123456789'')"
  by (intro dotted_chars_gen uitoa_chars)

lemma dotted_no_slash: "CHR ''/'' \<notin> set (dotted a b c d)"
proof
  assume "CHR ''/'' \<in> set (dotted a b c d)"
  then have "CHR ''/'' \<in> insert CHR ''.'' (set ''0123456789'')" using dotted_chars by blast
  then show False by simp
qed

lemma ip_String_IPv4: "ip_String (IPv4 a b c d) = dotted (unat a) (unat b) (unat c) (unat d)"
  by (simp add: ip_String_def)

lemma IPNet_String_IPv4:
  "IPNet_String (IPNet (IPv4 a b c d) l) = dotted (unat a) (unat b) (unat c) (unat d) @ CHR ''/'' # uitoa l"
  by (simp add: IPNet_String_def ip_String_IPv4)

lemma unat_byte_le: "unat (b :: byte) \<le> 255"
  using unsigned_less [of b, where ?'a = nat] by simp

lemma index_byte_append:
  "c \<notin> set xs \<Longrightarrow> index_byte (xs @ c # ys) c = Some (length xs)"
proof -
  assume a: "c \<notin> set xs"
  then have "takeWhile (\<lambda>x. x \<noteq> c) (xs @ c # ys) = xs @ takeWhile (\<lambda>x. x \<noteq> c) (c # ys)"
    by (intro takeWhile_append2) auto
  then show ?thesis by (simp add: index_byte_def)
qed

lemma parseCIDR_IPv4:
  assumes "l \<le> 32"
  shows "parseCIDR (IPNet_String (IPNet (IPv4 a b c d) l)) =
         Inr (IPv4 a b c d, IPNet (ip_Mask (IPv4 a b c d) l) l)"
proof -
  let ?t = "dotted (unat a) (unat b) (unat c) (unat d)"
  have slash: "CHR ''/'' \<notin> set ?t" by (rule dotted_no_slash)
  have idx: "index_byte (?t @ CHR ''/'' # uitoa l) CHR ''/'' = Some (length ?t)"
    using slash by (rule index_byte_append)
  have p4: "parseIPv4 ?t = Some [unat a, unat b, unat c, unat d]"
    by (rule parseIPv4_dotted) (rule unat_byte_le)+
  have "l < big" using assms by (simp add: big_def)
  then have d: "dtoi (uitoa l) = (l, length (uitoa l), True)"
    using dtoi_uitoa [of l "[]"] by simp
  show ?thesis
    using assms by (simp add: parseCIDR_def IPNet_String_IPv4 idx p4 d)
qed


lemma dotted_no_space: "CHR '' '' \<notin> set (dotted a b c d)"
proof
  assume "CHR '' '' \<in> set (dotted a b c d)"
  then have "CHR '' '' \<in> insert CHR ''.'' (set ''0123456789'')" using dotted_chars by blast
  then show False by simp
qed

lemma dotted_no_colon: "CHR '':'' \<notin> set (dotted a b c d)"
proof
  assume "CHR '':'' \<in> set (dotted a b c d)"
  then have "CHR '':'' \<in> insert CHR ''.'' (set ''0123456789'')" using dotted_chars by blast
  then show False by simp
qed

lemma uitoa_no_space: "CHR '' '' \<notin> set (uitoa n)"
  using uitoa_chars [of n] by auto

lemma uitoa_no_colon: "CHR '':'' \<notin> set (uitoa n)"
  using uitoa_chars [of n] by auto

lemma ParseCIDR_net_IPv4:
  "l \<le> 32 \<Longrightarrow> ParseCIDR_net (IPNet_String (IPNet (IPv4 a b c d) l)) = Inr (net_masked (IPNet (IPv4 a b c d) l))"
  by (simp add: ParseCIDR_net_def parseCIDR_IPv4 net_masked_def)

lemma ParseAddr_IPv4:
  assumes "l \<le> 32"
  shows "ParseAddr (IPNet_String (IPNet (IPv4 a b c d) l)) = Inr (IPNet (IPv4 a b c d) l)"
proof -
  let ?s = "IPNet_String (IPNet (IPv4 a b c d) l)"
  have "CHR '' '' \<notin> set ?s"
    by (simp add: IPNet_String_IPv4 dotted_no_space uitoa_no_space)
  then have tw: "takeWhile (\<lambda>c. c \<noteq> CHR '' '') ?s = ?s"
    by (intro takeWhile_eq_all_conv [THEN iffD2]) auto
  show ?thesis by (simp only: ParseAddr_def tw parseCIDR_IPv4 [OF assms]) simp
qed

lemma IPNet_String_has_slash: "CHR ''/'' \<in> set (IPNet_String n)"
  by (cases n) (simp add: IPNet_String_def)

lemma IPNet_String_not_nil: "IPNet_String n \<noteq> ''<nil>''"
proof
  assume "IPNet_String n = ''<nil>''"
  then have "CHR ''/'' \<in> set ''<nil>''" using IPNet_String_has_slash [of n] by simp
  then show False by simp
qed

lemma IPNet_String_IPv4_no_colon: "CHR '':'' \<notin> set (IPNet_String (IPNet (IPv4 a b c d) l))"
  by (simp add: IPNet_String_IPv4 dotted_no_colon uitoa_no_colon)

lemma ip6_text_has_colon: "CHR '':'' \<in> set (ip6_text (Suc (Suc k)) gs run 0)"
  by (cases run) (simp add: Let_def)

lemma IPNet_String_IPv6_colon:
  assumes "To4 (IPv6 w) = None"
  shows "CHR '':'' \<in> set (IPNet_String (IPNet (IPv6 w) l))"
proof -
  have "8 = Suc (Suc 6)" by simp
  then have "CHR '':'' \<in> set (ip6_text 8 gs run 0)" for gs run
    using ip6_text_has_colon [of 6 gs run] by (simp only:)
  then have c: "CHR '':'' \<in> set (ip6_text 8 gs run 0)" for gs run .
  obtain e0 e1 where z: "zero_run (groups16 w) 0 (0, 0) = (e0, e1)"
    by (cases "zero_run (groups16 w) 0 (0, 0)") auto
  have "ip_String (IPv6 w) =
        ip6_text 8 (groups16 w) (if e1 - e0 \<le> 1 then (0, 0) else (e0, e1)) 0"
    using assms by (simp add: ip_String_def Let_def z)
  then have "CHR '':'' \<in> set (ip_String (IPv6 w))" using c by simp
  then show ?thesis by (simp add: IPNet_String_def)
qed

section \<open>Canonical strings as keys\<close>


lemma canonical_AF_INET:
  "canonical n \<Longrightarrow> net_family n = AF_INET \<Longrightarrow> \<exists>a b c d l. n = IPNet (IPv4 a b c d) l \<and> l \<le> 32"
  by (cases n; cases "IP n") (auto simp: canonical_def plain_ip_def net_family_def ip_family_def ip_bits_def split: option.splits)

lemma net_family_IPv4 [simp]: "net_family (IPNet (IPv4 a b c d) l) = AF_INET"
  by (simp add: net_family_def ip_family_def)

lemma canonical_AF_INET6:
  "canonical n \<Longrightarrow> net_family n = AF_INET6 \<Longrightarrow> \<exists>w l. n = IPNet (IPv6 w) l \<and> To4 (IPv6 w) = None"
  by (cases n; cases "IP n") (auto simp: canonical_def plain_ip_def net_family_def ip_family_def split: option.splits)

lemma String_inj_AF_INET:
  assumes "canonical n" "net_family n = AF_INET" "canonical n'" "net_family n' = AF_INET"
    and "IPNet_String n = IPNet_String n'"
  shows "n = n'"
proof -
  obtain a b c d l where n: "n = IPNet (IPv4 a b c d) l" "l \<le> 32"
    using canonical_AF_INET [OF assms(1,2)] by blast
  obtain a' b' c' d' l' where n': "n' = IPNet (IPv4 a' b' c' d') l'" "l' \<le> 32"
    using canonical_AF_INET [OF assms(3,4)] by blast
  have "ParseAddr (IPNet_String n) = Inr n" unfolding n(1) by (rule ParseAddr_IPv4 [OF n(2)])
  moreover have "ParseAddr (IPNet_String n') = Inr n'" unfolding n'(1) by (rule ParseAddr_IPv4 [OF n'(2)])
  ultimately have "Inr n = (Inr n' :: error + ipnet)" by (simp only: assms(5))
  then show ?thesis by simp
qed

lemma String_family:
  assumes "canonical n" "canonical n'" "IPNet_String n = IPNet_String n'"
  shows "net_family n = net_family n'"
proof (rule ccontr)
  assume neq: "net_family n \<noteq> net_family n'"
  have aux: "False" if "canonical x" and "canonical y" and "net_family x = AF_INET"
    and "net_family y = AF_INET6" and "IPNet_String x = IPNet_String y" for x y
  proof -
    note p = that
    obtain a b c d l where x: "x = IPNet (IPv4 a b c d) l" using canonical_AF_INET [OF p(1,3)] by blast
    obtain w l' where y: "y = IPNet (IPv6 w) l'" "To4 (IPv6 w) = None" using canonical_AF_INET6 [OF p(2,4)] by blast
    have "CHR '':'' \<notin> set (IPNet_String x)" unfolding x by (rule IPNet_String_IPv4_no_colon)
    moreover have "CHR '':'' \<in> set (IPNet_String y)" unfolding y(1) using y(2) by (rule IPNet_String_IPv6_colon)
    ultimately show False using p(5) by simp
  qed
  show False
  proof (cases "net_family n")
    case AF_INET
    with neq have "net_family n' = AF_INET6" by (cases "net_family n'") auto
    with AF_INET assms show False using aux [of n n'] by simp
  next
    case AF_INET6
    with neq have "net_family n' = AF_INET" by (cases "net_family n'") auto
    with AF_INET6 assms show False using aux [of n' n] by simp
  qed
qed

lemma To4_IPv6_None: "To4 (IPv6 w) = None \<longleftrightarrow> drop_bit 32 w \<noteq> 0xffff"
  by simp

lemma To4_mask_plain:
  assumes "To4 (IPv6 w) = None"
  shows "To4 (IPv6 (w AND NOT (mask (128 - l)))) = None"
proof (cases "128 - l \<le> 32")
  case True
  have "drop_bit 32 (w AND NOT (mask (128 - l))) = drop_bit 32 w"
    using True by (intro bit_word_eqI) (auto simp: bit_simps dest: bit_imp_le_length)
  moreover have "drop_bit 32 w \<noteq> 0xffff" using assms To4_IPv6_None by blast
  ultimately have "drop_bit 32 (w AND NOT (mask (128 - l))) \<noteq> 0xffff" by metis
  then show ?thesis using To4_IPv6_None by blast
next
  case False
  have "\<not> bit (drop_bit 32 (w AND NOT (mask (128 - l)))) 0"
    using False by (simp add: bit_simps)
  moreover have "bit (0xffff :: 128 word) 0" by simp
  ultimately have "drop_bit 32 (w AND NOT (mask (128 - l))) \<noteq> 0xffff" by metis
  then show ?thesis using To4_IPv6_None by blast
qed

lemma ip_Mask_IPv4: "\<exists>a' b' c' d'. ip_Mask (IPv4 a b c d) l = IPv4 a' b' c' d'"
  by (simp add: ip_Mask_def split: list.splits)

lemma ip_Mask_IPv6: "ip_Mask (IPv6 w) l = IPv6 (w AND NOT (mask (128 - l)))"
  by (simp add: ip_Mask_def)

lemma net_family_masked:
  assumes "canonical n"
  shows "net_family (net_masked n) = net_family n"
proof (cases n)
  case (IPNet a l)
  show ?thesis
  proof (cases a)
    case (IPv4 b0 b1 b2 b3)
    obtain a' b' c' d' where "ip_Mask (IPv4 b0 b1 b2 b3) l = IPv4 a' b' c' d'"
      using ip_Mask_IPv4 by blast
    then show ?thesis by (simp add: IPNet IPv4 net_masked_def net_family_def ip_family_def)
  next
    case (IPv6 w)
    have p: "To4 (IPv6 w) = None" using assms by (simp add: IPNet IPv6 canonical_def plain_ip_def)
    have "To4 (IPv6 (w AND NOT (mask (128 - l)))) = None" using p by (rule To4_mask_plain)
    then have "ip_family (ip_Mask (IPv6 w) l) = AF_INET6"
      by (simp only: ip_Mask_IPv6 ip_family_def option.case)
    moreover have "ip_family (IPv6 w) = AF_INET6" using p by (simp only: ip_family_def option.case)
    ultimately show ?thesis by (simp add: IPNet IPv6 net_masked_def net_family_def)
  qed
qed

section \<open>The presence map and the two loops of a reconciliation\<close>


lemma map_of_update_fold:
  "map_of (foldl (\<lambda>m x. AList.update (f x) v m) m0 xs) s =
   (if s \<in> f ` set xs then Some v else map_of m0 s)"
  by (induction xs arbitrary: m0) (auto simp: update_conv')

lemma distinct_update_fold:
  "distinct (map fst m0) \<Longrightarrow> distinct (map fst (foldl (\<lambda>m x. AList.update (f x) v m) m0 xs))"
  by (induction xs arbitrary: m0) (auto simp: distinct_update)

lemma map_of_observed_routes:
  "map_of (observed_routes rs) s = (if s \<in> Dst_String ` set rs then Some 1 else None)"
  by (simp add: observed_routes_def map_of_update_fold)

lemma distinct_observed_routes: "distinct (map fst (observed_routes rs))"
  by (simp add: observed_routes_def distinct_update_fold)

lemma map_of_observed_addresses:
  "map_of (observed_addresses as) s = (if s \<in> IPNet_String ` set as then Some 1 else None)"
  by (simp add: observed_addresses_def map_of_update_fold)

lemma distinct_observed_addresses: "distinct (map fst (observed_addresses as))"
  by (simp add: observed_addresses_def distinct_update_fold)

lemma RouteAdd_None:
  assumes "RouteAdd d k = (None, k')"
  shows "routes k' = routes k @ [net_masked d]" and "trace k' = trace k @ [RouteAdd_call d]"
    and "addrs k' = addrs k" and "fault k' = fault k"
    and "MaskLen d \<le> ip_bits (IP d)" and "ip_bits (IP d) = 32 \<longrightarrow> net_masked d = d"
    and "net_masked d \<notin> set (routes k)"
  using assms by (auto simp: RouteAdd_def issue_def split: option.splits if_splits)

lemma RouteDel_None:
  assumes "RouteDel d k = (None, k')"
  shows "routes k' = removeAll d (routes k)" and "trace k' = trace k @ [RouteDel_call d]"
    and "addrs k' = addrs k" and "fault k' = fault k" and "d \<in> set (routes k)"
  using assms by (auto simp: RouteDel_def issue_def split: option.splits if_splits)

lemma AddrAdd_None:
  assumes "AddrAdd a k = (None, k')"
  shows "addrs k' = addrs k @ [a]" and "trace k' = trace k @ [AddrAdd_call a]"
    and "routes k' = routes k" and "fault k' = fault k" and "a \<notin> set (addrs k)"
  using assms by (auto simp: AddrAdd_def issue_def split: option.splits if_splits)

lemma AddrAdd_present: "a \<in> set (addrs k) \<Longrightarrow> fst (AddrAdd a k) \<noteq> None"
  by (simp add: AddrAdd_def split: option.splits)

lemma syncRoutes_peer_ok:
  assumes "syncRoutes_peer ds m k = (Inr m', k')"
  shows "\<exists>added. routes k' = routes k @ map net_masked added
           \<and> trace k' = trace k @ map RouteAdd_call added
           \<and> addrs k' = addrs k \<and> fault k' = fault k
           \<and> set added \<subseteq> set ds
           \<and> (\<forall>d\<in>set added. MaskLen d \<le> ip_bits (IP d) \<and> (ip_bits (IP d) = 32 \<longrightarrow> net_masked d = d))
           \<and> (\<forall>d\<in>set ds. IPNet_String d \<in> dom (map_of m) \<or> IPNet_String d \<in> IPNet_String ` set added)
           \<and> (\<forall>s. map_of m' s = (if s \<in> IPNet_String ` set ds then Some 2 else map_of m s))
           \<and> (distinct (map fst m) \<longrightarrow> distinct (map fst m'))
           \<and> (\<forall>d\<in>set added. net_masked d \<notin> set (routes k))"
  using assms
proof (induction ds arbitrary: m k)
  case Nil
  then show ?case by (intro exI [of _ "[]"]) simp
next
  case (Cons d ds)
  let ?m1 = "AList.update (IPNet_String d) 2 m"
  have dom1: "dom (map_of ?m1) = insert (IPNet_String d) (dom (map_of m))"
    by (simp add: update_conv')
  have mo1: "map_of ?m1 s = (if s = IPNet_String d then Some 2 else map_of m s)" for s
    by (simp add: update_conv')
  have dist1: "distinct (map fst m) \<longrightarrow> distinct (map fst ?m1)"
    by (simp add: distinct_update)
  show ?case
  proof (cases "map_of m (IPNet_String d) \<noteq> None")
    case True
    with Cons.prems have "syncRoutes_peer ds ?m1 k = (Inr m', k')" by (simp add: Let_def)
    from Cons.IH [OF this] obtain added where a:
      "routes k' = routes k @ map net_masked added"
      "trace k' = trace k @ map RouteAdd_call added"
      "addrs k' = addrs k" "fault k' = fault k"
      "set added \<subseteq> set ds"
      "\<forall>d\<in>set added. MaskLen d \<le> ip_bits (IP d) \<and> (ip_bits (IP d) = 32 \<longrightarrow> net_masked d = d)"
      "\<forall>x\<in>set ds. IPNet_String x \<in> dom (map_of ?m1) \<or> IPNet_String x \<in> IPNet_String ` set added"
      "\<forall>s. map_of m' s = (if s \<in> IPNet_String ` set ds then Some 2 else map_of ?m1 s)"
      "distinct (map fst ?m1) \<longrightarrow> distinct (map fst m')"
      "\<forall>d\<in>set added. net_masked d \<notin> set (routes k)"
      by blast
    have c7: "\<forall>x\<in>set (d # ds). IPNet_String x \<in> dom (map_of m) \<or> IPNet_String x \<in> IPNet_String ` set added"
    proof
      fix x assume "x \<in> set (d # ds)"
      then consider "x = d" | "x \<in> set ds" by auto
      then show "IPNet_String x \<in> dom (map_of m) \<or> IPNet_String x \<in> IPNet_String ` set added"
      proof cases
        case 1 then show ?thesis using True by (auto simp: dom_def)
      next
        case 2
        with a(7) have "IPNet_String x \<in> dom (map_of ?m1) \<or> IPNet_String x \<in> IPNet_String ` set added" by blast
        then show ?thesis using True unfolding dom1 by (auto simp: dom_def)
      qed
    qed
    have c8: "\<forall>s. map_of m' s = (if s \<in> IPNet_String ` set (d # ds) then Some 2 else map_of m s)"
      using a(8) mo1 by auto
    have c5: "set added \<subseteq> set (d # ds)" using a(5) by auto
    show ?thesis
      using a(1,2,3,4,6) c5 c7 c8 a(9) dist1 a(10) by (intro exI [of _ added]) blast
  next
    case False
    then obtain k1 where ra: "RouteAdd d k = (None, k1)" and rest: "syncRoutes_peer ds ?m1 k1 = (Inr m', k')"
      using Cons.prems by (auto simp: Let_def split: prod.splits option.splits)
    note r = RouteAdd_None [OF ra]
    from Cons.IH [OF rest] obtain added where a:
      "routes k' = routes k1 @ map net_masked added"
      "trace k' = trace k1 @ map RouteAdd_call added"
      "addrs k' = addrs k1" "fault k' = fault k1"
      "set added \<subseteq> set ds"
      "\<forall>d\<in>set added. MaskLen d \<le> ip_bits (IP d) \<and> (ip_bits (IP d) = 32 \<longrightarrow> net_masked d = d)"
      "\<forall>x\<in>set ds. IPNet_String x \<in> dom (map_of ?m1) \<or> IPNet_String x \<in> IPNet_String ` set added"
      "\<forall>s. map_of m' s = (if s \<in> IPNet_String ` set ds then Some 2 else map_of ?m1 s)"
      "distinct (map fst ?m1) \<longrightarrow> distinct (map fst m')"
      "\<forall>d\<in>set added. net_masked d \<notin> set (routes k1)"
      by blast
    let ?added = "d # added"
    have c10: "\<forall>x\<in>set ?added. net_masked x \<notin> set (routes k)"
      using a(10) r(1,7) by simp
    have c1: "routes k' = routes k @ map net_masked ?added" using a(1) r(1) by simp
    have c2: "trace k' = trace k @ map RouteAdd_call ?added" using a(2) r(2) by simp
    have c3: "addrs k' = addrs k" "fault k' = fault k" using a(3,4) r(3,4) by simp_all
    have c5: "set ?added \<subseteq> set (d # ds)" using a(5) by auto
    have c6: "\<forall>d\<in>set ?added. MaskLen d \<le> ip_bits (IP d) \<and> (ip_bits (IP d) = 32 \<longrightarrow> net_masked d = d)"
      using a(6) r(5,6) by simp
    have c7: "\<forall>x\<in>set (d # ds). IPNet_String x \<in> dom (map_of m) \<or> IPNet_String x \<in> IPNet_String ` set ?added"
    proof
      fix x assume "x \<in> set (d # ds)"
      then consider "x = d" | "x \<in> set ds" by auto
      then show "IPNet_String x \<in> dom (map_of m) \<or> IPNet_String x \<in> IPNet_String ` set ?added"
      proof cases
        case 1 then show ?thesis by simp
      next
        case 2
        with a(7) have "IPNet_String x \<in> dom (map_of ?m1) \<or> IPNet_String x \<in> IPNet_String ` set added" by blast
        then show ?thesis unfolding dom1 by auto
      qed
    qed
    have c8: "\<forall>s. map_of m' s = (if s \<in> IPNet_String ` set (d # ds) then Some 2 else map_of m s)"
      using a(8) mo1 by auto
    show ?thesis
      using c1 c2 c3 c5 c6 c7 c8 a(9) dist1 c10 by (intro exI [of _ ?added]) blast
  qed
qed


lemma syncRoutes_peer_append:
  "syncRoutes_peer (xs @ ys) m k =
   (case syncRoutes_peer xs m k of
      (Inl e, k') \<Rightarrow> (Inl e, k')
    | (Inr m', k') \<Rightarrow> syncRoutes_peer ys m' k')"
  by (induction xs arbitrary: m k) (auto simp: Let_def split: prod.splits option.splits sum.splits)

lemma syncRoutes_peers_flat:
  "syncRoutes_peers ps m k = syncRoutes_peer (concat (map AllowedIPs ps)) m k"
  by (induction ps arbitrary: m k) (auto simp: syncRoutes_peer_append split: prod.splits sum.splits)

lemma syncRoutes_peer_present:
  assumes "\<forall>d\<in>set ds. map_of m (IPNet_String d) \<noteq> None"
  shows "\<exists>m'. syncRoutes_peer ds m k = (Inr m', k)
          \<and> (\<forall>s. map_of m' s = (if s \<in> IPNet_String ` set ds then Some 2 else map_of m s))
          \<and> (distinct (map fst m) \<longrightarrow> distinct (map fst m'))"
  using assms
proof (induction ds arbitrary: m)
  case Nil
  then show ?case by simp
next
  case (Cons d ds)
  let ?m1 = "AList.update (IPNet_String d) 2 m"
  have mo1: "map_of ?m1 s = (if s = IPNet_String d then Some 2 else map_of m s)" for s
    by (simp add: update_conv')
  have "\<forall>x\<in>set ds. map_of ?m1 (IPNet_String x) \<noteq> None"
    using Cons.prems by (simp add: mo1)
  from Cons.IH [OF this] obtain m' where m':
    "syncRoutes_peer ds ?m1 k = (Inr m', k)"
    "\<forall>s. map_of m' s = (if s \<in> IPNet_String ` set ds then Some 2 else map_of ?m1 s)"
    "distinct (map fst ?m1) \<longrightarrow> distinct (map fst m')"
    by blast
  have 1: "syncRoutes_peer (d # ds) m k = (Inr m', k)"
    using Cons.prems m'(1) by (simp add: Let_def)
  have 2: "\<forall>s. map_of m' s = (if s \<in> IPNet_String ` set (d # ds) then Some 2 else map_of m s)"
    using m'(2) mo1 by auto
  have 3: "distinct (map fst m) \<longrightarrow> distinct (map fst m')"
    using m'(3) by (simp add: distinct_update)
  show ?case using 1 2 3 by blast
qed

lemma syncRoutes_clean_ok:
  assumes "syncRoutes_clean es k = (None, k')"
  shows "\<exists>dels. map Inr dels = map (\<lambda>e. ParseCIDR_net (fst e)) (filter (\<lambda>e. snd e < 2) es)
           \<and> set (routes k') = set (routes k) - set dels
           \<and> set dels \<subseteq> set (routes k)
           \<and> trace k' = trace k @ map RouteDel_call dels
           \<and> addrs k' = addrs k \<and> fault k' = fault k
           \<and> (\<forall>e\<in>set es. \<exists>rt. ParseCIDR_net (fst e) = Inr rt)"
  using assms
proof (induction es arbitrary: k)
  case Nil
  then show ?case by (intro exI [of _ "[]"]) simp
next
  case (Cons e es)
  obtain s p where e: "e = (s, p)" by (cases e)
  from Cons.prems obtain rt where rt: "ParseCIDR_net s = Inr rt"
    by (auto simp: e split: sum.splits)
  show ?case
  proof (cases "p < 2")
    case True
    then obtain k1 where rd: "RouteDel rt k = (None, k1)" and rest: "syncRoutes_clean es k1 = (None, k')"
      using Cons.prems rt by (auto simp: e split: prod.splits option.splits)
    note r = RouteDel_None [OF rd]
    from Cons.IH [OF rest] obtain dels where d:
      "map Inr dels = map (\<lambda>e. ParseCIDR_net (fst e)) (filter (\<lambda>e. snd e < 2) es)"
      "set (routes k') = set (routes k1) - set dels"
      "set dels \<subseteq> set (routes k1)"
      "trace k' = trace k1 @ map RouteDel_call dels"
      "addrs k' = addrs k1" "fault k' = fault k1"
      "\<forall>e\<in>set es. \<exists>rt. ParseCIDR_net (fst e) = Inr rt"
      by blast
    let ?dels = "rt # dels"
    have 1: "map Inr ?dels = map (\<lambda>e. ParseCIDR_net (fst e)) (filter (\<lambda>e. snd e < 2) (e # es))"
      using d(1) True rt by (simp add: e)
    have 2: "set (routes k') = set (routes k) - set ?dels" using d(2) r(1) by auto
    have 3: "set ?dels \<subseteq> set (routes k)" using d(3) r(1,5) by auto
    have 4: "trace k' = trace k @ map RouteDel_call ?dels" using d(4) r(2) by simp
    have 5: "addrs k' = addrs k" "fault k' = fault k" using d(5,6) r(3,4) by simp_all
    have 6: "\<forall>x\<in>set (e # es). \<exists>rt. ParseCIDR_net (fst x) = Inr rt" using d(7) rt by (simp add: e)
    show ?thesis using 1 2 3 4 5 6 by (intro exI [of _ ?dels]) blast
  next
    case False
    then have rest: "syncRoutes_clean es k = (None, k')"
      using Cons.prems rt by (simp add: e)
    from Cons.IH [OF rest] obtain dels where d:
      "map Inr dels = map (\<lambda>e. ParseCIDR_net (fst e)) (filter (\<lambda>e. snd e < 2) es)"
      "set (routes k') = set (routes k) - set dels"
      "set dels \<subseteq> set (routes k)"
      "trace k' = trace k @ map RouteDel_call dels"
      "addrs k' = addrs k" "fault k' = fault k"
      "\<forall>e\<in>set es. \<exists>rt. ParseCIDR_net (fst e) = Inr rt"
      by blast
    have 1: "map Inr dels = map (\<lambda>e. ParseCIDR_net (fst e)) (filter (\<lambda>e. snd e < 2) (e # es))"
      using d(1) False by (simp add: e)
    have 6: "\<forall>x\<in>set (e # es). \<exists>rt. ParseCIDR_net (fst x) = Inr rt" using d(7) rt by (simp add: e)
    show ?thesis using 1 d(2-6) 6 by (intro exI [of _ dels]) blast
  qed
qed

lemma syncRoutes_clean_kept:
  assumes "\<forall>e\<in>set es. \<not> snd e < 2"
  shows "snd (syncRoutes_clean es k) = k"
  using assms
  by (induction es arbitrary: k) (auto split: sum.splits)


lemma ParseCIDR_net_nil: "ParseCIDR_net ''<nil>'' = Inl (ParseError ''<nil>'')"
  by (simp add: ParseCIDR_net_def parseCIDR_def index_byte_def)

lemma RouteList_Inr:
  assumes "RouteList fam k = (Inr rs, k1)"
  shows "rs = map (\<lambda>d. if MaskLen d = 0 then None else Some d) (filter (\<lambda>d. net_family d = fam) (routes k))"
    and "routes k1 = routes k" and "addrs k1 = addrs k" and "fault k1 = fault k"
    and "trace k1 = trace k @ [RouteList_call fam]"
  using assms by (auto simp: RouteList_def issue_def split: option.splits)

lemma syncRoutes_None:
  assumes "syncRoutes ord cfg k = (None, k')"
  obtains rs k1 m' k2 where "RouteList AF_INET k = (Inr rs, k1)"
    and "syncRoutes_peer (desired_routes cfg) (observed_routes rs) k1 = (Inr m', k2)"
    and "syncRoutes_clean (ord m') k2 = (None, k')"
  using assms
  by (auto simp: syncRoutes_def syncRoutes_peers_flat desired_routes_def split: prod.splits sum.splits)

lemma range_order_set: "range_order ord \<Longrightarrow> set (ord m) = set m"
  by (metis range_order_def set_mset_mset)

lemma presence_entry:
  assumes "distinct (map fst m)"
  shows "(s, p) \<in> set m \<longleftrightarrow> map_of m s = Some p"
  using assms by simp

text \<open>What a successful route sync has seen and done.\<close>

lemma syncRoutes_success:
  assumes ord: "range_order ord"
    and kok: "routes_ok k"
    and ok: "syncRoutes ord cfg k = (None, k')"
  obtains added where
    "set (routes k') = (set (routes k) \<union> net_masked ` set added)
        - {r \<in> set (routes k). net_family r = AF_INET \<and> IPNet_String r \<notin> IPNet_String ` set (desired_routes cfg)}"
    and "set added \<subseteq> set (desired_routes cfg)"
    and "\<forall>d\<in>set added. MaskLen d \<le> ip_bits (IP d) \<and> (ip_bits (IP d) = 32 \<longrightarrow> net_masked d = d)"
    and "\<forall>d\<in>set (desired_routes cfg).
           IPNet_String d \<in> IPNet_String ` {r \<in> set (routes k). net_family r = AF_INET}
           \<or> IPNet_String d \<in> IPNet_String ` set added"
    and "\<forall>r\<in>set (routes k). net_family r = AF_INET \<longrightarrow> MaskLen r \<noteq> 0"
    and "addrs k' = addrs k"
    and "\<forall>d\<in>set added. net_masked d \<notin> set (routes k)"
proof -
  let ?D = "desired_routes cfg"
  let ?O = "filter (\<lambda>d. net_family d = AF_INET) (routes k)"
  from ok obtain rs k1 m' k2 where
    rl: "RouteList AF_INET k = (Inr rs, k1)"
    and add: "syncRoutes_peer ?D (observed_routes rs) k1 = (Inr m', k2)"
    and clean: "syncRoutes_clean (ord m') k2 = (None, k')"
    by (rule syncRoutes_None)
  note l = RouteList_Inr [OF rl]
  from syncRoutes_peer_ok [OF add] obtain added where a:
    "routes k2 = routes k1 @ map net_masked added"
    "addrs k2 = addrs k1"
    "set added \<subseteq> set ?D"
    "\<forall>d\<in>set added. MaskLen d \<le> ip_bits (IP d) \<and> (ip_bits (IP d) = 32 \<longrightarrow> net_masked d = d)"
    "\<forall>d\<in>set ?D. IPNet_String d \<in> dom (map_of (observed_routes rs)) \<or> IPNet_String d \<in> IPNet_String ` set added"
    "\<forall>s. map_of m' s = (if s \<in> IPNet_String ` set ?D then Some 2 else map_of (observed_routes rs) s)"
    "distinct (map fst (observed_routes rs)) \<longrightarrow> distinct (map fst m')"
    "\<forall>d\<in>set added. net_masked d \<notin> set (routes k1)"
    by blast
  have dist: "distinct (map fst m')" using a(7) distinct_observed_routes by blast
  from syncRoutes_clean_ok [OF clean] obtain dels where d:
    "map Inr dels = map (\<lambda>e. ParseCIDR_net (fst e)) (filter (\<lambda>e. snd e < 2) (ord m'))"
    "set (routes k') = set (routes k2) - set dels"
    "addrs k' = addrs k2"
    "\<forall>e\<in>set (ord m'). \<exists>rt. ParseCIDR_net (fst e) = Inr rt"
    by blast
  have setord: "set (ord m') = set m'" using ord by (rule range_order_set)
  have entry: "(s, p) \<in> set m' \<longleftrightarrow> map_of m' s = Some p" for s p
    using dist by simp
  \<comment> \<open>no nil destination was observed\<close>
  have nonil: "None \<notin> set rs"
  proof
    assume "None \<in> set rs"
    then have "''<nil>'' \<in> Dst_String ` set rs" by (force simp: Dst_String_def)
    then have "map_of (observed_routes rs) ''<nil>'' = Some 1" by (simp add: map_of_observed_routes)
    then have "\<exists>p. map_of m' ''<nil>'' = Some p" using a(6) by simp
    then obtain p where "(''<nil>'', p) \<in> set (ord m')" using entry setord by blast
    then have "\<exists>rt. ParseCIDR_net ''<nil>'' = Inr rt" using d(4) by force
    then show False by (simp add: ParseCIDR_net_nil)
  qed
  have len0: "\<forall>r\<in>set (routes k). net_family r = AF_INET \<longrightarrow> MaskLen r \<noteq> 0"
  proof (intro ballI impI)
    fix r assume "r \<in> set (routes k)" "net_family r = AF_INET"
    then have "r \<in> set ?O" by simp
    then have "(if MaskLen r = 0 then None else Some r) \<in> set rs" unfolding l(1) set_map by (rule imageI)
    with nonil show "MaskLen r \<noteq> 0" by metis
  qed
  have rs: "rs = map Some ?O"
    unfolding l(1) using len0 by (intro map_cong) auto
  have keys: "Dst_String ` set rs = IPNet_String ` set ?O"
    unfolding rs by (simp add: image_image Dst_String_def)
  have domobs: "dom (map_of (observed_routes rs)) = IPNet_String ` set ?O"
    using keys by (auto simp: map_of_observed_routes dom_def)
  \<comment> \<open>the deleted routes are the observed ones whose key is not desired\<close>
  have stale: "set dels = {r \<in> set ?O. IPNet_String r \<notin> IPNet_String ` set ?D}"
  proof (intro set_eqI iffI)
    fix rt assume "rt \<in> set dels"
    then have "Inr rt \<in> set (map Inr dels :: (error + ipnet) list)" by simp
    then have "Inr rt \<in> set (map (\<lambda>e. ParseCIDR_net (fst e)) (filter (\<lambda>e. snd e < 2) (ord m')))"
      using d(1) by simp
    then obtain s p where sp: "(s, p) \<in> set m'" "p < 2" "ParseCIDR_net s = Inr rt"
      using setord by auto
    from sp(1) have mo: "map_of m' s = Some p" using entry by blast
    with sp(2) a(6) have nd: "s \<notin> IPNet_String ` set ?D" and "map_of (observed_routes rs) s = Some p"
      by (auto split: if_splits)
    then have "s \<in> IPNet_String ` set ?O" using domobs by (auto simp: dom_def)
    then obtain r where r: "r \<in> set ?O" "s = IPNet_String r" by blast
    then have "canonical r" "net_masked r = r" "net_family r = AF_INET" using kok by (auto simp: routes_ok_def)
    then obtain a b c e l where "r = IPNet (IPv4 a b c e) l" "l \<le> 32" using canonical_AF_INET by blast
    then have "ParseCIDR_net s = Inr (net_masked r)" using r(2) by (simp add: ParseCIDR_net_IPv4)
    with sp(3) \<open>net_masked r = r\<close> have "rt = r" by simp
    with r nd show "rt \<in> {r \<in> set ?O. IPNet_String r \<notin> IPNet_String ` set ?D}" by simp
  next
    fix r assume "r \<in> {r \<in> set ?O. IPNet_String r \<notin> IPNet_String ` set ?D}"
    then have r: "r \<in> set ?O" "IPNet_String r \<notin> IPNet_String ` set ?D" by auto
    then have "map_of m' (IPNet_String r) = Some 1"
      using a(6) keys by (simp add: map_of_observed_routes)
    then have e: "(IPNet_String r, 1) \<in> set (ord m')" using entry setord by blast
    from r(1) have "canonical r" "net_masked r = r" "net_family r = AF_INET" using kok by (auto simp: routes_ok_def)
    then obtain a b c e' l where "r = IPNet (IPv4 a b c e') l" "l \<le> 32" using canonical_AF_INET by blast
    then have "ParseCIDR_net (IPNet_String r) = Inr (net_masked r)" by (simp add: ParseCIDR_net_IPv4)
    then have p: "ParseCIDR_net (IPNet_String r) = Inr r" using \<open>net_masked r = r\<close> by simp
    have "Inr r \<in> set (map (\<lambda>e. ParseCIDR_net (fst e)) (filter (\<lambda>e. snd e < 2) (ord m')))"
      using e p by force
    then have "Inr r \<in> set (map Inr dels :: (error + ipnet) list)" using d(1) by simp
    then show "r \<in> set dels" by auto
  qed
  have 1: "set (routes k') = (set (routes k) \<union> net_masked ` set added)
        - {r \<in> set (routes k). net_family r = AF_INET \<and> IPNet_String r \<notin> IPNet_String ` set ?D}"
    using d(2) a(1) l(2) stale by auto
  have 4: "\<forall>d\<in>set ?D. IPNet_String d \<in> IPNet_String ` {r \<in> set (routes k). net_family r = AF_INET}
           \<or> IPNet_String d \<in> IPNet_String ` set added"
    using a(5) domobs by auto
  have 6: "addrs k' = addrs k" using d(3) a(2) l(3) by simp
  have 7: "\<forall>d\<in>set added. net_masked d \<notin> set (routes k)" using a(8) l(2) by simp
  show thesis using that [OF 1 a(3) a(4) 4 len0 6 7] .
qed



lemma syncRoutes_clean_parses:
  assumes "syncRoutes_clean es k = (None, k')" and "e \<in> set es"
  shows "\<exists>rt. ParseCIDR_net (fst e) = Inr rt"
  using syncRoutes_clean_ok [OF assms(1)] assms(2) by blast












section \<open>The loops of the address reconciler\<close>


lemma AddrList_Inr:
  assumes "AddrList fam k = (Inr as, k1)"
  shows "as = filter (\<lambda>a. net_family a = fam) (addrs k)"
    and "routes k1 = routes k" and "addrs k1 = addrs k" and "fault k1 = fault k"
    and "trace k1 = trace k @ [AddrList_call fam]"
  using assms by (auto simp: AddrList_def issue_def split: option.splits)

lemma AddrList_trace: "trace (snd (AddrList fam k)) = trace k @ [AddrList_call fam]"
  by (simp add: AddrList_def issue_def split: option.splits)

lemma AddrList_state: "addrs (snd (AddrList fam k)) = addrs k" "routes (snd (AddrList fam k)) = routes k"
  by (simp_all add: AddrList_def issue_def split: option.splits)

lemma RouteList_trace: "trace (snd (RouteList fam k)) = trace k @ [RouteList_call fam]"
  by (simp add: RouteList_def issue_def split: option.splits)

lemma RouteList_state: "addrs (snd (RouteList fam k)) = addrs k" "routes (snd (RouteList fam k)) = routes k"
  by (simp_all add: RouteList_def issue_def split: option.splits)

lemma AddrAdd_trace: "trace (snd (AddrAdd a k)) = trace k @ [AddrAdd_call a]"
  by (simp add: AddrAdd_def issue_def split: option.splits)

text \<open>The loop over the desired addresses, whatever its outcome.\<close>

lemma syncAddress_add_trace:
  "\<exists>added. trace (snd (syncAddress_add as m k)) = trace k @ map AddrAdd_call added
     \<and> set added \<subseteq> set as
     \<and> distinct (map IPNet_String added)
     \<and> (\<forall>a\<in>set added. map_of m (IPNet_String a) = None)"
proof (induction as arbitrary: m k)
  case Nil
  show ?case by (intro exI [of _ "[]"]) simp
next
  case (Cons a as)
  let ?m1 = "AList.update (IPNet_String a) 2 m"
  have mo1: "map_of ?m1 s = (if s = IPNet_String a then Some 2 else map_of m s)" for s
    by (simp add: update_conv')
  show ?case
  proof (cases "map_of m (IPNet_String a) \<noteq> None")
    case True
    then have eq: "syncAddress_add (a # as) m k = syncAddress_add as ?m1 k" by (simp add: Let_def)
    from Cons.IH [of ?m1 k] obtain added where ad:
      "trace (snd (syncAddress_add as ?m1 k)) = trace k @ map AddrAdd_call added"
      "set added \<subseteq> set as" "distinct (map IPNet_String added)"
      "\<forall>x\<in>set added. map_of ?m1 (IPNet_String x) = None"
      by blast
    have 4: "\<forall>x\<in>set added. map_of m (IPNet_String x) = None"
      using ad(4) mo1 by (metis option.distinct(1))
    have 2: "set added \<subseteq> set (a # as)" using ad(2) by auto
    show ?thesis unfolding eq using ad(1) 2 ad(3) 4 by (intro exI [of _ added]) blast
  next
    case False
    obtain r k1 where ra: "AddrAdd a k = (r, k1)" by (cases "AddrAdd a k")
    have t1: "trace k1 = trace k @ [AddrAdd_call a]" using AddrAdd_trace [of a k] ra by simp
    show ?thesis
    proof (cases r)
      case (Some e)
      then have eq: "syncAddress_add (a # as) m k = (Inl e, k1)" using False ra by (simp add: Let_def)
      show ?thesis unfolding eq using t1 False by (intro exI [of _ "[a]"]) simp
    next
      case None
      then have eq: "syncAddress_add (a # as) m k = syncAddress_add as ?m1 k1" using False ra by (simp add: Let_def)
      from Cons.IH [of ?m1 k1] obtain added where ad:
        "trace (snd (syncAddress_add as ?m1 k1)) = trace k1 @ map AddrAdd_call added"
        "set added \<subseteq> set as" "distinct (map IPNet_String added)"
        "\<forall>x\<in>set added. map_of ?m1 (IPNet_String x) = None"
        by blast
      have ne: "\<forall>x\<in>set added. IPNet_String x \<noteq> IPNet_String a"
        using ad(4) mo1 by (metis option.distinct(1))
      have 4: "\<forall>x\<in>set (a # added). map_of m (IPNet_String x) = None"
        using ad(4) mo1 False by (metis option.distinct(1) set_ConsD)
      have 3: "distinct (map IPNet_String (a # added))" using ad(3) ne by auto
      have 2: "set (a # added) \<subseteq> set (a # as)" using ad(2) by auto
      have 1: "trace (snd (syncAddress_add as ?m1 k1)) = trace k @ map AddrAdd_call (a # added)"
        using ad(1) t1 by simp
      show ?thesis unfolding eq using 1 2 3 4 by (intro exI [of _ "a # added"]) blast
    qed
  qed
qed

lemma syncAddress_add_Cons_Inr:
  assumes "syncAddress_add (a # as) m k = (Inr m', k')"
  shows "\<exists>k1. syncAddress_add as (AList.update (IPNet_String a) 2 m) k1 = (Inr m', k')"
proof (cases "map_of m (IPNet_String a) \<noteq> None")
  case True
  with assms have "syncAddress_add as (AList.update (IPNet_String a) 2 m) k = (Inr m', k')"
    by (simp add: Let_def)
  then show ?thesis ..
next
  case False
  obtain r k1 where ra: "AddrAdd a k = (r, k1)" by (cases "AddrAdd a k")
  with assms False have "syncAddress_add as (AList.update (IPNet_String a) 2 m) k1 = (Inr m', k')"
    by (cases r) (simp_all add: Let_def)
  then show ?thesis ..
qed

lemma syncAddress_add_flags:
  assumes "syncAddress_add as m k = (Inr m', k')"
  shows "\<forall>s. map_of m' s = (if s \<in> IPNet_String ` set as then Some 2 else map_of m s)"
  using assms
proof (induction as arbitrary: m k)
  case Nil
  then show ?case by simp
next
  case (Cons a as)
  let ?m1 = "AList.update (IPNet_String a) 2 m"
  have mo1: "map_of ?m1 s = (if s = IPNet_String a then Some 2 else map_of m s)" for s
    by (simp add: update_conv')
  from syncAddress_add_Cons_Inr [OF Cons.prems]
  obtain k1 where r: "syncAddress_add as ?m1 k1 = (Inr m', k')" ..
  from Cons.IH [OF r] show ?case using mo1 by auto
qed

lemma syncAddress_add_distinct:
  assumes "syncAddress_add as m k = (Inr m', k')" and "distinct (map fst m)"
  shows "distinct (map fst m')"
  using assms
proof (induction as arbitrary: m k)
  case Nil
  then show ?case by simp
next
  case (Cons a as)
  let ?m1 = "AList.update (IPNet_String a) 2 m"
  from syncAddress_add_Cons_Inr [OF Cons.prems(1)]
  obtain k1 where r: "syncAddress_add as ?m1 k1 = (Inr m', k')" ..
  have "distinct (map fst ?m1)" using Cons.prems(2) by (simp add: distinct_update)
  from Cons.IH [OF r this] show ?case .
qed



lemma syncAddress_clean_trace:
  "\<exists>nls. trace (snd (syncAddress_clean es k)) = trace k @ map AddrAdd_call nls
     \<and> (\<forall>nl\<in>set nls. \<exists>e\<in>set es. snd e < 2 \<and> ParseAddr (fst e) = Inr nl)"
proof (induction es arbitrary: k)
  case Nil
  show ?case by (intro exI [of _ "[]"]) simp
next
  case (Cons e es)
  obtain s p where e: "e = (s, p)" by (cases e)
  show ?case
  proof (cases "p < 2")
    case False
    then have eq: "syncAddress_clean (e # es) k = syncAddress_clean es k" by (simp add: e)
    from Cons.IH [of k] obtain nls where n:
      "trace (snd (syncAddress_clean es k)) = trace k @ map AddrAdd_call nls"
      "\<forall>nl\<in>set nls. \<exists>e\<in>set es. snd e < 2 \<and> ParseAddr (fst e) = Inr nl" by blast
    have "\<forall>nl\<in>set nls. \<exists>x\<in>set (e # es). snd x < 2 \<and> ParseAddr (fst x) = Inr nl"
      using n(2) by auto
    then show ?thesis unfolding eq using n(1) by (intro exI [of _ nls]) blast
  next
    case True
    show ?thesis
    proof (cases "ParseAddr s")
      case (Inl err)
      then have eq: "syncAddress_clean (e # es) k = (Some err, k)" using True by (simp add: e)
      show ?thesis unfolding eq by (intro exI [of _ "[]"]) simp
    next
      case (Inr nl)
      obtain r k1 where ra: "AddrAdd nl k = (r, k1)" by (cases "AddrAdd nl k")
      have t1: "trace k1 = trace k @ [AddrAdd_call nl]" using AddrAdd_trace [of nl k] ra by simp
      have here: "\<exists>x\<in>set (e # es). snd x < 2 \<and> ParseAddr (fst x) = Inr nl"
        using True Inr by (simp add: e)
      show ?thesis
      proof (cases r)
        case (Some err)
        then have eq: "syncAddress_clean (e # es) k = (Some err, k1)" using True Inr ra by (simp add: e)
        show ?thesis unfolding eq using t1 here by (intro exI [of _ "[nl]"]) simp
      next
        case None
        then have eq: "syncAddress_clean (e # es) k = syncAddress_clean es k1" using True Inr ra by (simp add: e)
        from Cons.IH [of k1] obtain nls where n:
          "trace (snd (syncAddress_clean es k1)) = trace k1 @ map AddrAdd_call nls"
          "\<forall>nl\<in>set nls. \<exists>e\<in>set es. snd e < 2 \<and> ParseAddr (fst e) = Inr nl" by blast
        have 2: "\<forall>x\<in>set (nl # nls). \<exists>y\<in>set (e # es). snd y < 2 \<and> ParseAddr (fst y) = Inr x"
          using n(2) here by auto
        have 1: "trace (snd (syncAddress_clean es k1)) = trace k @ map AddrAdd_call (nl # nls)"
          using n(1) t1 by simp
        show ?thesis unfolding eq using 1 2 by (intro exI [of _ "nl # nls"]) blast
      qed
    qed
  qed
qed

lemma filter_distinct_key:
  "distinct (map f xs) \<Longrightarrow> length (filter (\<lambda>x. f x = s) xs) \<le> 1"
  by (induction xs) (auto simp: filter_empty_conv image_iff)

lemma filter_is_add_of:
  "filter (is_add_of s) (map AddrAdd_call as) = map AddrAdd_call (filter (\<lambda>a. IPNet_String a = s) as)"
  by (induction as) (auto simp: is_add_of_def)

lemma canonical_ParseAddr:
  assumes "canonical a" and "net_family a = AF_INET"
  shows "ParseAddr (IPNet_String a) = Inr a"
proof -
  obtain b0 b1 b2 b3 l where "a = IPNet (IPv4 b0 b1 b2 b3) l" "l \<le> 32"
    using canonical_AF_INET [OF assms] by blast
  then show ?thesis by (simp only: ParseAddr_IPv4)
qed



lemma syncAddress_adds_once:
  assumes ord: "range_order ord" and kok: "addrs_ok k" and a: "a \<in> set (Address cfg)"
  shows "length (filter (is_add_of (IPNet_String a))
           (drop (length (trace k)) (trace (snd (syncAddress ord cfg k))))) \<le> 1"
proof -
  let ?s = "IPNet_String a"
  obtain r k1 where al: "AddrList AF_INET k = (r, k1)" by (cases "AddrList AF_INET k")
  have t1: "trace k1 = trace k @ [AddrList_call AF_INET]" using AddrList_trace [of AF_INET k] al by simp
  show ?thesis
  proof (cases r)
    case (Inl e)
    then have "syncAddress ord cfg k = (Some e, k1)" using al by (simp add: syncAddress_def)
    then show ?thesis using t1 by (simp add: is_add_of_def)
  next
    case (Inr as)
    note l = AddrList_Inr [OF al [unfolded Inr]]
    let ?m = "observed_addresses as"
    obtain r2 k2 where ad: "syncAddress_add (Address cfg) ?m k1 = (r2, k2)"
      by (cases "syncAddress_add (Address cfg) ?m k1")
    from syncAddress_add_trace [of "Address cfg" ?m k1] obtain added where added:
      "trace k2 = trace k1 @ map AddrAdd_call added" "distinct (map IPNet_String added)"
      using ad by auto
    have cnt: "length (filter (\<lambda>x. IPNet_String x = ?s) added) \<le> 1"
      using added(2) by (rule filter_distinct_key)
    show ?thesis
    proof (cases r2)
      case (Inl e)
      then have "syncAddress ord cfg k = (Some e, k2)" using al Inr ad by (simp add: syncAddress_def)
      then show ?thesis using t1 added(1) cnt by (simp add: filter_is_add_of is_add_of_def)
    next
      case (Inr m')
      have ad': "syncAddress_add (Address cfg) ?m k1 = (Inr m', k2)" using ad Inr by simp
      have res: "syncAddress ord cfg k = syncAddress_clean (ord m') k2"
        using al \<open>r = Inr as\<close> ad' by (simp add: syncAddress_def)
      have flags: "\<forall>s. map_of m' s = (if s \<in> IPNet_String ` set (Address cfg) then Some 2 else map_of ?m s)"
        using ad' by (rule syncAddress_add_flags)
      have dist: "distinct (map fst m')"
        using ad' distinct_observed_addresses by (rule syncAddress_add_distinct)
      from syncAddress_clean_trace [of "ord m'" k2] obtain nls where nls:
        "trace (snd (syncAddress_clean (ord m') k2)) = trace k2 @ map AddrAdd_call nls"
        "\<forall>nl\<in>set nls. \<exists>e\<in>set (ord m'). snd e < 2 \<and> ParseAddr (fst e) = Inr nl"
        by blast
      have other: "IPNet_String nl \<noteq> ?s" if nl: "nl \<in> set nls" for nl
      proof -
        from nls(2) nl obtain e where e: "e \<in> set (ord m')" "snd e < 2" "ParseAddr (fst e) = Inr nl" by blast
        have "(fst e, snd e) \<in> set m'" using e(1) range_order_set [OF ord] by simp
        then have mo: "map_of m' (fst e) = Some (snd e)" using dist by simp
        have ns: "fst e \<notin> IPNet_String ` set (Address cfg)"
        proof
          assume "fst e \<in> IPNet_String ` set (Address cfg)"
          then have "map_of m' (fst e) = Some 2" using flags by simp
          with mo e(2) show False by simp
        qed
        then have "map_of ?m (fst e) = Some (snd e)" using flags mo by simp
        then have "fst e \<in> IPNet_String ` set as" by (simp add: map_of_observed_addresses split: if_splits)
        then obtain x where x: "x \<in> set as" "fst e = IPNet_String x" by blast
        have "x \<in> set (addrs k)" "net_family x = AF_INET" using x(1) unfolding l(1) by simp_all
        then have "ParseAddr (IPNet_String x) = Inr x"
          using kok by (intro canonical_ParseAddr) (simp_all add: addrs_ok_def)
        then have "nl = x" using e(3) x(2) by simp
        then show ?thesis using ns x(2) a by auto
      qed
      have "filter (\<lambda>x. IPNet_String x = ?s) nls = []"
        using other by (simp add: filter_empty_conv)
      then show ?thesis
        unfolding res using nls(1) added(1) t1 cnt by (simp add: filter_is_add_of is_add_of_def)
    qed
  qed
qed




lemma syncAddress_add_ok:
  assumes "syncAddress_add ds m k = (Inr m', k')"
  shows "\<exists>added. addrs k' = addrs k @ added \<and> routes k' = routes k
           \<and> set added \<subseteq> set ds
           \<and> (\<forall>d\<in>set ds. IPNet_String d \<in> dom (map_of m) \<or> IPNet_String d \<in> IPNet_String ` set added)"
  using assms
proof (induction ds arbitrary: m k)
  case Nil
  then show ?case by (intro exI [of _ "[]"]) simp
next
  case (Cons d ds)
  let ?m1 = "AList.update (IPNet_String d) 2 m"
  have dom1: "dom (map_of ?m1) = insert (IPNet_String d) (dom (map_of m))"
    by (simp add: update_conv')
  show ?case
  proof (cases "map_of m (IPNet_String d) \<noteq> None")
    case True
    with Cons.prems have "syncAddress_add ds ?m1 k = (Inr m', k')" by (simp add: Let_def)
    from Cons.IH [OF this] obtain added where a:
      "addrs k' = addrs k @ added" "routes k' = routes k" "set added \<subseteq> set ds"
      "\<forall>x\<in>set ds. IPNet_String x \<in> dom (map_of ?m1) \<or> IPNet_String x \<in> IPNet_String ` set added"
      by blast
    have c4: "\<forall>x\<in>set (d # ds). IPNet_String x \<in> dom (map_of m) \<or> IPNet_String x \<in> IPNet_String ` set added"
      using a(4) True unfolding dom1 by (auto simp: dom_def)
    have c3: "set added \<subseteq> set (d # ds)" using a(3) by auto
    show ?thesis using a(1,2) c3 c4 by (intro exI [of _ added]) blast
  next
    case False
    obtain r k1 where ra: "AddrAdd d k = (r, k1)" by (cases "AddrAdd d k")
    with Cons.prems False have r: "r = None" and rest: "syncAddress_add ds ?m1 k1 = (Inr m', k')"
      by (cases r; simp add: Let_def)+
    note ad = AddrAdd_None [OF ra [unfolded r]]
    from Cons.IH [OF rest] obtain added where a:
      "addrs k' = addrs k1 @ added" "routes k' = routes k1" "set added \<subseteq> set ds"
      "\<forall>x\<in>set ds. IPNet_String x \<in> dom (map_of ?m1) \<or> IPNet_String x \<in> IPNet_String ` set added"
      by blast
    have c1: "addrs k' = addrs k @ (d # added)" using a(1) ad(1) by simp
    have c2: "routes k' = routes k" using a(2) ad(3) by simp
    have c3: "set (d # added) \<subseteq> set (d # ds)" using a(3) by auto
    have c4: "\<forall>x\<in>set (d # ds). IPNet_String x \<in> dom (map_of m) \<or> IPNet_String x \<in> IPNet_String ` set (d # added)"
      using a(4) unfolding dom1 by auto
    show ?thesis using c1 c2 c3 c4 by (intro exI [of _ "d # added"]) blast
  qed
qed

lemma syncAddress_add_present:
  assumes "\<forall>d\<in>set ds. map_of m (IPNet_String d) \<noteq> None"
  shows "\<exists>m'. syncAddress_add ds m k = (Inr m', k)"
  using assms
proof (induction ds arbitrary: m)
  case Nil
  then show ?case by simp
next
  case (Cons d ds)
  let ?m1 = "AList.update (IPNet_String d) 2 m"
  have "\<forall>x\<in>set ds. map_of ?m1 (IPNet_String x) \<noteq> None"
    using Cons.prems by (simp add: update_conv')
  from Cons.IH [OF this] obtain m' where "syncAddress_add ds ?m1 k = (Inr m', k)" ..
  then have "syncAddress_add (d # ds) m k = (Inr m', k)" using Cons.prems by (simp add: Let_def)
  then show ?case ..
qed

lemma syncAddress_clean_kept:
  assumes "\<forall>e\<in>set es. \<not> snd e < 2"
  shows "syncAddress_clean es k = (None, k)"
  using assms by (induction es arbitrary: k) auto

lemma syncAddress_clean_ok:
  assumes "syncAddress_clean es k = (None, k')"
  shows "\<exists>nls. addrs k' = addrs k @ nls \<and> routes k' = routes k
           \<and> (\<forall>e\<in>set es. snd e < 2 \<longrightarrow> (\<exists>nl. ParseAddr (fst e) = Inr nl \<and> nl \<notin> set (addrs k)))"
  using assms
proof (induction es arbitrary: k)
  case Nil
  then show ?case by (intro exI [of _ "[]"]) simp
next
  case (Cons e es)
  obtain s p where e: "e = (s, p)" by (cases e)
  show ?case
  proof (cases "p < 2")
    case False
    then have rest: "syncAddress_clean es k = (None, k')" using Cons.prems by (simp add: e)
    from Cons.IH [OF rest] obtain nls where n:
      "addrs k' = addrs k @ nls" "routes k' = routes k"
      "\<forall>e\<in>set es. snd e < 2 \<longrightarrow> (\<exists>nl. ParseAddr (fst e) = Inr nl \<and> nl \<notin> set (addrs k))"
      by blast
    have "\<forall>x\<in>set (e # es). snd x < 2 \<longrightarrow> (\<exists>nl. ParseAddr (fst x) = Inr nl \<and> nl \<notin> set (addrs k))"
      using n(3) False by (simp add: e)
    then show ?thesis using n(1,2) by (intro exI [of _ nls]) blast
  next
    case True
    from Cons.prems True obtain nl where nl: "ParseAddr s = Inr nl"
      by (cases "ParseAddr s") (simp_all add: e)
    obtain r k1 where ra: "AddrAdd nl k = (r, k1)" by (cases "AddrAdd nl k")
    with Cons.prems True nl have r: "r = None" and rest: "syncAddress_clean es k1 = (None, k')"
      by (cases r; simp add: e)+
    note ad = AddrAdd_None [OF ra [unfolded r]]
    from Cons.IH [OF rest] obtain nls where n:
      "addrs k' = addrs k1 @ nls" "routes k' = routes k1"
      "\<forall>e\<in>set es. snd e < 2 \<longrightarrow> (\<exists>nl. ParseAddr (fst e) = Inr nl \<and> nl \<notin> set (addrs k1))"
      by blast
    have c1: "addrs k' = addrs k @ (nl # nls)" using n(1) ad(1) by simp
    have c2: "routes k' = routes k" using n(2) ad(3) by simp
    have c3: "\<forall>x\<in>set (e # es). snd x < 2 \<longrightarrow> (\<exists>nl. ParseAddr (fst x) = Inr nl \<and> nl \<notin> set (addrs k))"
      using n(3) nl ad(1,5) by (auto simp: e)
    show ?thesis using c1 c2 c3 by (intro exI [of _ "nl # nls"]) blast
  qed
qed



lemma syncAddress_None:
  assumes "syncAddress ord cfg k = (None, k')"
  obtains as k1 m' k2 where "AddrList AF_INET k = (Inr as, k1)"
    and "syncAddress_add (Address cfg) (observed_addresses as) k1 = (Inr m', k2)"
    and "syncAddress_clean (ord m') k2 = (None, k')"
  using assms
  by (auto simp: syncAddress_def split: prod.splits sum.splits)

lemma syncAddress_success:
  assumes ord: "range_order ord" and kok: "addrs_ok k"
    and ok: "syncAddress ord cfg k = (None, k')"
  obtains added where "set (addrs k') = set (addrs k) \<union> set added"
    and "set added \<subseteq> set (Address cfg)"
    and "routes k' = routes k"
    and "\<forall>a\<in>set (Address cfg).
           IPNet_String a \<in> IPNet_String ` {x \<in> set (addrs k). net_family x = AF_INET}
           \<or> IPNet_String a \<in> IPNet_String ` set added"
    and "\<forall>x\<in>set (addrs k). net_family x = AF_INET \<longrightarrow> IPNet_String x \<in> IPNet_String ` set (Address cfg)"
proof -
  from ok obtain as k1 m' k2 where
    al: "AddrList AF_INET k = (Inr as, k1)"
    and add: "syncAddress_add (Address cfg) (observed_addresses as) k1 = (Inr m', k2)"
    and clean: "syncAddress_clean (ord m') k2 = (None, k')"
    by (rule syncAddress_None)
  note l = AddrList_Inr [OF al]
  let ?m = "observed_addresses as"
  from syncAddress_add_ok [OF add] obtain added where a:
    "addrs k2 = addrs k1 @ added" "routes k2 = routes k1" "set added \<subseteq> set (Address cfg)"
    "\<forall>d\<in>set (Address cfg). IPNet_String d \<in> dom (map_of ?m) \<or> IPNet_String d \<in> IPNet_String ` set added"
    by blast
  have flags: "\<forall>s. map_of m' s = (if s \<in> IPNet_String ` set (Address cfg) then Some 2 else map_of ?m s)"
    using add by (rule syncAddress_add_flags)
  have dist: "distinct (map fst m')"
    using add distinct_observed_addresses by (rule syncAddress_add_distinct)
  from syncAddress_clean_ok [OF clean] obtain nls where c:
    "addrs k' = addrs k2 @ nls" "routes k' = routes k2"
    "\<forall>e\<in>set (ord m'). snd e < 2 \<longrightarrow> (\<exists>nl. ParseAddr (fst e) = Inr nl \<and> nl \<notin> set (addrs k2))"
    by blast
  have domobs: "dom (map_of ?m) = IPNet_String ` set as"
    by (auto simp: map_of_observed_addresses dom_def)
  \<comment> \<open>an observed address whose string is not desired would be added again, and refused\<close>
  have nostale: "IPNet_String x \<in> IPNet_String ` set (Address cfg)"
    if x: "x \<in> set (addrs k)" "net_family x = AF_INET" for x
  proof (rule ccontr)
    assume ns: "IPNet_String x \<notin> IPNet_String ` set (Address cfg)"
    have "x \<in> set as" using x unfolding l(1) by simp
    then have "map_of m' (IPNet_String x) = Some 1"
      using flags ns by (simp add: map_of_observed_addresses)
    then have "(IPNet_String x, 1) \<in> set m'" using dist by simp
    then have "(IPNet_String x, 1) \<in> set (ord m')" using range_order_set [OF ord] by simp
    then have "\<exists>nl. ParseAddr (IPNet_String x) = Inr nl \<and> nl \<notin> set (addrs k2)"
      using c(3) by force
    moreover have "ParseAddr (IPNet_String x) = Inr x"
      using x kok by (intro canonical_ParseAddr) (simp_all add: addrs_ok_def)
    ultimately have "x \<notin> set (addrs k2)" by simp
    then show False using x(1) a(1) l(3) by simp
  qed
  have kept: "\<forall>e\<in>set (ord m'). \<not> snd e < 2"
  proof
    fix e assume "e \<in> set (ord m')"
    then have "(fst e, snd e) \<in> set m'" using range_order_set [OF ord] by simp
    then have mo: "map_of m' (fst e) = Some (snd e)" using dist by simp
    show "\<not> snd e < 2"
    proof (cases "fst e \<in> IPNet_String ` set (Address cfg)")
      case True
      then show ?thesis using flags mo by simp
    next
      case False
      then have "map_of ?m (fst e) = Some (snd e)" using flags mo by simp
      then have "fst e \<in> IPNet_String ` set as" by (simp add: map_of_observed_addresses split: if_splits)
      then obtain x where "x \<in> set as" "fst e = IPNet_String x" by blast
      then have "fst e \<in> IPNet_String ` set (Address cfg)"
        using nostale [of x] unfolding l(1) by simp
      with False show ?thesis by simp
    qed
  qed
  have "syncAddress_clean (ord m') k2 = (None, k2)" using kept by (rule syncAddress_clean_kept)
  with clean have k': "k' = k2" by simp
  have 1: "set (addrs k') = set (addrs k) \<union> set added" using k' a(1) l(3) by simp
  have 3: "routes k' = routes k" using k' a(2) l(2) by simp
  have 4: "\<forall>a\<in>set (Address cfg).
           IPNet_String a \<in> IPNet_String ` {x \<in> set (addrs k). net_family x = AF_INET}
           \<or> IPNet_String a \<in> IPNet_String ` set added"
  proof -
    have "set as = {x \<in> set (addrs k). net_family x = AF_INET}" by (simp add: l(1))
    then have "dom (map_of ?m) = IPNet_String ` {x \<in> set (addrs k). net_family x = AF_INET}"
      by (simp only: domobs)
    then show ?thesis using a(4) by (simp only:)
  qed
  have 5: "\<forall>x\<in>set (addrs k). net_family x = AF_INET \<longrightarrow> IPNet_String x \<in> IPNet_String ` set (Address cfg)"
    using nostale by blast
  show thesis using that [OF 1 a(3) 3 4 5] .
qed

lemma syncAddress_add_append:
  "syncAddress_add (xs @ ys) m k =
     (case syncAddress_add xs m k of
        (Inl e, k') \<Rightarrow> (Inl e, k')
      | (Inr m', k') \<Rightarrow> syncAddress_add ys m' k')"
proof (induction xs arbitrary: m k)
  case Nil
  show ?case by simp
next
  case (Cons x xs)
  show ?case
  proof (cases "map_of m (IPNet_String x) \<noteq> None")
    case True
    then show ?thesis using Cons.IH by (simp add: Let_def)
  next
    case False
    obtain r k1 where ra: "AddrAdd x k = (r, k1)" by (cases "AddrAdd x k")
    show ?thesis using False ra Cons.IH by (cases r) (simp_all add: Let_def)
  qed
qed

lemma syncAddress_add_drop_dup:
  assumes "IPNet_String b \<in> IPNet_String ` set xs"
  shows "syncAddress_add (xs @ b # ys) m k = syncAddress_add (xs @ ys) m k"
proof (cases "syncAddress_add xs m k")
  case (Pair r k1)
  show ?thesis
  proof (cases r)
    case (Inl e)
    then show ?thesis using Pair by (simp add: syncAddress_add_append)
  next
    case (Inr m')
    have xs: "syncAddress_add xs m k = (Inr m', k1)" using Pair Inr by simp
    have "\<forall>s. map_of m' s = (if s \<in> IPNet_String ` set xs then Some 2 else map_of m s)"
      using xs by (rule syncAddress_add_flags)
    then have f: "map_of m' (IPNet_String b) = Some 2" using assms by simp
    then have u: "AList.update (IPNet_String b) 2 m' = m'" by (rule update_triv)
    have "syncAddress_add (b # ys) m' k1 = syncAddress_add ys m' k1"
      using f u by (simp add: Let_def)
    then show ?thesis using xs by (simp add: syncAddress_add_append)
  qed
qed

lemma syncAddress_drop_dup:
  assumes "Address cfg = xs @ b # ys" and "IPNet_String b \<in> IPNet_String ` set xs"
  shows "syncAddress ord cfg k = syncAddress ord (cfg\<lparr>Address := xs @ ys\<rparr>) k"
proof -
  obtain r k1 where al: "AddrList AF_INET k = (r, k1)" by (cases "AddrList AF_INET k")
  show ?thesis
  proof (cases r)
    case (Inl e)
    then show ?thesis using al by (simp add: syncAddress_def)
  next
    case (Inr as)
    then show ?thesis
      using al syncAddress_add_drop_dup [OF assms(2), of ys "observed_addresses as" k1]
      by (simp add: syncAddress_def assms(1))
  qed
qed

text \<open>The calls of an address sync: the list call, the adds of the first loop, the adds of the removal loop.\<close>

lemma syncAddress_trace_shape:
  assumes ord: "range_order ord" and kok: "addrs_ok k"
  shows "\<exists>added nls.
           drop (length (trace k)) (trace (snd (syncAddress ord cfg k)))
             = AddrList_call AF_INET # map AddrAdd_call added @ map AddrAdd_call nls
           \<and> distinct (map IPNet_String added)
           \<and> set added \<subseteq> set (Address cfg)
           \<and> (\<forall>x\<in>set added. IPNet_String x \<notin> IPNet_String ` {y \<in> set (addrs k). net_family y = AF_INET})
           \<and> (\<forall>nl\<in>set nls. IPNet_String nl \<notin> IPNet_String ` set (Address cfg))"
proof -
  obtain r k1 where al: "AddrList AF_INET k = (r, k1)" by (cases "AddrList AF_INET k")
  have t1: "trace k1 = trace k @ [AddrList_call AF_INET]" using AddrList_trace [of AF_INET k] al by simp
  show ?thesis
  proof (cases r)
    case (Inl e)
    then have "syncAddress ord cfg k = (Some e, k1)" using al by (simp add: syncAddress_def)
    then have "drop (length (trace k)) (trace (snd (syncAddress ord cfg k)))
             = AddrList_call AF_INET # map AddrAdd_call [] @ map AddrAdd_call []"
      using t1 by simp
    then show ?thesis by (intro exI [of _ "[]"] conjI) simp_all
  next
    case (Inr as)
    note l = AddrList_Inr [OF al [unfolded Inr]]
    let ?m = "observed_addresses as"
    obtain r2 k2 where ad: "syncAddress_add (Address cfg) ?m k1 = (r2, k2)"
      by (cases "syncAddress_add (Address cfg) ?m k1")
    from syncAddress_add_trace [of "Address cfg" ?m k1] obtain added where added:
      "trace k2 = trace k1 @ map AddrAdd_call added" "set added \<subseteq> set (Address cfg)"
      "distinct (map IPNet_String added)" "\<forall>a\<in>set added. map_of ?m (IPNet_String a) = None"
      using ad by auto
    have sas: "set as = {y \<in> set (addrs k). net_family y = AF_INET}" by (simp add: l(1))
    have notobs: "\<forall>x\<in>set added. IPNet_String x \<notin> IPNet_String ` {y \<in> set (addrs k). net_family y = AF_INET}"
    proof
      fix x assume "x \<in> set added"
      then have "map_of ?m (IPNet_String x) = None" using added(4) by blast
      then have "IPNet_String x \<notin> IPNet_String ` set as" by (simp add: map_of_observed_addresses split: if_splits)
      then show "IPNet_String x \<notin> IPNet_String ` {y \<in> set (addrs k). net_family y = AF_INET}"
        using sas by metis
    qed
    show ?thesis
    proof (cases r2)
      case (Inl e)
      then have "syncAddress ord cfg k = (Some e, k2)" using al \<open>r = Inr as\<close> ad by (simp add: syncAddress_def)
      then have "drop (length (trace k)) (trace (snd (syncAddress ord cfg k)))
             = AddrList_call AF_INET # map AddrAdd_call added @ map AddrAdd_call []"
        using t1 added(1) by simp
      then show ?thesis using added(2,3) notobs by (intro exI [of _ added] exI [of _ "[]"] conjI) simp_all
    next
      case (Inr m')
      have ad': "syncAddress_add (Address cfg) ?m k1 = (Inr m', k2)" using ad Inr by simp
      have res: "syncAddress ord cfg k = syncAddress_clean (ord m') k2"
        using al \<open>r = Inr as\<close> ad' by (simp add: syncAddress_def)
      have flags: "\<forall>s. map_of m' s = (if s \<in> IPNet_String ` set (Address cfg) then Some 2 else map_of ?m s)"
        using ad' by (rule syncAddress_add_flags)
      have dist: "distinct (map fst m')"
        using ad' distinct_observed_addresses by (rule syncAddress_add_distinct)
      from syncAddress_clean_trace [of "ord m'" k2] obtain nls where nls:
        "trace (snd (syncAddress_clean (ord m') k2)) = trace k2 @ map AddrAdd_call nls"
        "\<forall>nl\<in>set nls. \<exists>e\<in>set (ord m'). snd e < 2 \<and> ParseAddr (fst e) = Inr nl"
        by blast
      have other: "\<forall>nl\<in>set nls. IPNet_String nl \<notin> IPNet_String ` set (Address cfg)"
      proof
        fix nl assume nl: "nl \<in> set nls"
        from nls(2) nl obtain e where e: "e \<in> set (ord m')" "snd e < 2" "ParseAddr (fst e) = Inr nl" by blast
        have "(fst e, snd e) \<in> set m'" using e(1) range_order_set [OF ord] by simp
        then have mo: "map_of m' (fst e) = Some (snd e)" using dist by simp
        have ns: "fst e \<notin> IPNet_String ` set (Address cfg)"
        proof
          assume "fst e \<in> IPNet_String ` set (Address cfg)"
          then have "map_of m' (fst e) = Some 2" using flags by simp
          with mo e(2) show False by simp
        qed
        then have "map_of ?m (fst e) = Some (snd e)" using flags mo by simp
        then have "fst e \<in> IPNet_String ` set as" by (simp add: map_of_observed_addresses split: if_splits)
        then obtain x where x: "x \<in> set as" "fst e = IPNet_String x" by blast
        have "x \<in> set (addrs k)" "net_family x = AF_INET" using x(1) unfolding l(1) by simp_all
        then have "ParseAddr (IPNet_String x) = Inr x"
          using kok by (intro canonical_ParseAddr) (simp_all add: addrs_ok_def)
        then have "nl = x" using e(3) x(2) by simp
        then show "IPNet_String nl \<notin> IPNet_String ` set (Address cfg)" using ns x(2) by simp
      qed
      have "drop (length (trace k)) (trace (snd (syncAddress ord cfg k)))
             = AddrList_call AF_INET # map AddrAdd_call added @ map AddrAdd_call nls"
        unfolding res using nls(1) added(1) t1 by simp
      then show ?thesis using added(2,3) notobs other by (intro exI [of _ added] exI [of _ nls] conjI)
    qed
  qed
qed


lemma filter_is_add_of_list:
  "filter (is_add_of s) (AddrList_call fam # map AddrAdd_call xs @ map AddrAdd_call ys) =
   map AddrAdd_call (filter (\<lambda>a. IPNet_String a = s) xs) @ map AddrAdd_call (filter (\<lambda>a. IPNet_String a = s) ys)"
  by (simp add: filter_is_add_of) (simp add: is_add_of_def)


section \<open>A second run after a successful run\<close>

lemma syncAddress_quiet:
  assumes des: "\<forall>a\<in>set (Address cfg). IPNet_String a \<in> IPNet_String ` {x \<in> set (addrs k). net_family x = AF_INET}"
    and obs: "\<forall>x\<in>set (addrs k). net_family x = AF_INET \<longrightarrow> IPNet_String x \<in> IPNet_String ` set (Address cfg)"
    and ord: "range_order ord"
  shows "snd (syncAddress ord cfg k) = snd (AddrList AF_INET k)"
proof (cases "AddrList AF_INET k")
  case (Pair r k1)
  show ?thesis
  proof (cases r)
    case (Inl e)
    with Pair show ?thesis by (simp add: syncAddress_def)
  next
    case (Inr as)
    with Pair have L: "AddrList AF_INET k = (Inr as, k1)" by simp
    have as: "as = filter (\<lambda>a. net_family a = AF_INET) (addrs k)" by (rule AddrList_Inr(1) [OF L])
    have sas: "set as = {x \<in> set (addrs k). net_family x = AF_INET}" unfolding as by auto
    have pres: "\<forall>d\<in>set (Address cfg). map_of (observed_addresses as) (IPNet_String d) \<noteq> None"
      using des by (simp add: map_of_observed_addresses sas)
    have "\<exists>m'. syncAddress_add (Address cfg) (observed_addresses as) k1 = (Inr m', k1)"
      by (rule syncAddress_add_present [OF pres])
    then obtain m' where A: "syncAddress_add (Address cfg) (observed_addresses as) k1 = (Inr m', k1)"
      by (elim exE)
    have fl: "\<forall>s. map_of m' s = (if s \<in> IPNet_String ` set (Address cfg) then Some 2 else map_of (observed_addresses as) s)"
      by (rule syncAddress_add_flags [OF A])
    have dm: "distinct (map fst m')"
      by (rule syncAddress_add_distinct [OF A distinct_observed_addresses])
    have kept: "\<forall>e\<in>set (ord m'). \<not> snd e < 2"
    proof
      fix e assume "e \<in> set (ord m')"
      then have e: "e \<in> set m'" using range_order_set [OF ord] by simp
      obtain s p where sp: "e = (s, p)" by (cases e)
      from e have "(s, p) \<in> set m'" unfolding sp .
      then have mp: "map_of m' s = Some p" by (simp only: presence_entry [OF dm])
      show "\<not> snd e < 2"
      proof (cases "s \<in> IPNet_String ` set (Address cfg)")
        case True
        with fl mp have "p = 2" by simp
        then show ?thesis by (simp add: sp)
      next
        case False
        with fl mp have "map_of (observed_addresses as) s = Some p" by simp
        then have "s \<in> IPNet_String ` set as"
          by (simp add: map_of_observed_addresses split: if_splits)
        with obs sas have "s \<in> IPNet_String ` set (Address cfg)" by auto
        with False show ?thesis by simp
      qed
    qed
    have "syncAddress_clean (ord m') k1 = (None, k1)" by (rule syncAddress_clean_kept [OF kept])
    with L A show ?thesis by (simp add: syncAddress_def)
  qed
qed

lemma syncRoutes_quiet:
  assumes des: "\<forall>d\<in>set (desired_routes cfg).
       IPNet_String d \<in> IPNet_String ` {r \<in> set (routes k). net_family r = AF_INET \<and> MaskLen r \<noteq> 0}"
    and obs: "\<forall>r\<in>set (routes k). net_family r = AF_INET \<longrightarrow>
       MaskLen r \<noteq> 0 \<and> IPNet_String r \<in> IPNet_String ` set (desired_routes cfg)"
    and ord: "range_order ord"
  shows "snd (syncRoutes ord cfg k) = snd (RouteList AF_INET k)"
proof (cases "RouteList AF_INET k")
  case (Pair r k1)
  show ?thesis
  proof (cases r)
    case (Inl e)
    with Pair show ?thesis by (simp add: syncRoutes_def)
  next
    case (Inr rs)
    with Pair have L: "RouteList AF_INET k = (Inr rs, k1)" by simp
    have rs: "rs = map (\<lambda>d. if MaskLen d = 0 then None else Some d) (filter (\<lambda>d. net_family d = AF_INET) (routes k))"
      by (rule RouteList_Inr(1) [OF L])
    have srs: "Dst_String ` set rs = IPNet_String ` {r \<in> set (routes k). net_family r = AF_INET}"
    proof -
      have "set rs = Some ` {r \<in> set (routes k). net_family r = AF_INET}"
        unfolding rs using obs by (auto simp add: image_iff)
      then show ?thesis by (simp add: image_image Dst_String_def)
    qed
    have pres: "\<forall>d\<in>set (desired_routes cfg). map_of (observed_routes rs) (IPNet_String d) \<noteq> None"
      using des by (auto simp add: map_of_observed_routes srs)
    have "\<exists>m'. syncRoutes_peer (desired_routes cfg) (observed_routes rs) k1 = (Inr m', k1)
          \<and> (\<forall>s. map_of m' s = (if s \<in> IPNet_String ` set (desired_routes cfg) then Some 2 else map_of (observed_routes rs) s))
          \<and> (distinct (map fst (observed_routes rs)) \<longrightarrow> distinct (map fst m'))"
      by (rule syncRoutes_peer_present [OF pres])
    then obtain m' where A: "syncRoutes_peer (desired_routes cfg) (observed_routes rs) k1 = (Inr m', k1)"
      and fl: "\<forall>s. map_of m' s = (if s \<in> IPNet_String ` set (desired_routes cfg) then Some 2 else map_of (observed_routes rs) s)"
      and dm0: "distinct (map fst (observed_routes rs)) \<longrightarrow> distinct (map fst m')"
      by (elim exE conjE)
    from dm0 have dm: "distinct (map fst m')" by (simp add: distinct_observed_routes)
    have kept: "\<forall>e\<in>set (ord m'). \<not> snd e < 2"
    proof
      fix e assume "e \<in> set (ord m')"
      then have e: "e \<in> set m'" using range_order_set [OF ord] by simp
      obtain s p where sp: "e = (s, p)" by (cases e)
      from e have "(s, p) \<in> set m'" unfolding sp .
      then have mp: "map_of m' s = Some p" by (simp only: presence_entry [OF dm])
      show "\<not> snd e < 2"
      proof (cases "s \<in> IPNet_String ` set (desired_routes cfg)")
        case True
        with fl mp have "p = 2" by simp
        then show ?thesis by (simp add: sp)
      next
        case False
        with fl mp have "map_of (observed_routes rs) s = Some p" by simp
        then have "s \<in> Dst_String ` set rs"
          by (simp add: map_of_observed_routes split: if_splits)
        with obs srs have "s \<in> IPNet_String ` set (desired_routes cfg)" by auto
        with False show ?thesis by simp
      qed
    qed
    have "snd (syncRoutes_clean (ord m') k1) = k1" by (rule syncRoutes_clean_kept [OF kept])
    with L A show ?thesis by (simp add: syncRoutes_def syncRoutes_peers_flat desired_routes_def)
  qed
qed

lemma sync_None:
  assumes "sync ord cfg k = (None, k1)"
  obtains ka where "syncAddress ord cfg k = (None, ka)" and "syncRoutes ord cfg ka = (None, k1)"
proof (cases "syncAddress ord cfg k")
  case (Pair e ka)
  with assms have "e = None" by (cases e) (simp_all add: sync_def)
  with Pair assms have "syncAddress ord cfg k = (None, ka)" "syncRoutes ord cfg ka = (None, k1)"
    by (simp_all add: sync_def)
  then show ?thesis by (rule that)
qed

lemma sync_quiet_facts:
  assumes ord: "range_order ord" and kok: "kernel_ok k"
    and cr: "canonical_routes cfg" and v4: "ipv4_config cfg"
    and ok: "sync ord cfg k = (None, k1)"
  shows "\<forall>a\<in>set (Address cfg). IPNet_String a \<in> IPNet_String ` {x \<in> set (addrs k1). net_family x = AF_INET}"
    and "\<forall>x\<in>set (addrs k1). net_family x = AF_INET \<longrightarrow> IPNet_String x \<in> IPNet_String ` set (Address cfg)"
    and "\<forall>d\<in>set (desired_routes cfg).
       IPNet_String d \<in> IPNet_String ` {r \<in> set (routes k1). net_family r = AF_INET \<and> MaskLen r \<noteq> 0}"
    and "\<forall>r\<in>set (routes k1). net_family r = AF_INET \<longrightarrow>
       MaskLen r \<noteq> 0 \<and> IPNet_String r \<in> IPNet_String ` set (desired_routes cfg)"
proof -
  from kok have aok: "addrs_ok k" and rok: "routes_ok k" by (simp_all add: kernel_ok_def)
  from v4 have a4: "\<forall>a\<in>set (Address cfg). net_family a = AF_INET"
    and d4: "\<forall>d\<in>set (desired_routes cfg). net_family d = AF_INET \<and> MaskLen d \<noteq> 0"
    by (simp_all add: ipv4_config_def)
  obtain ka where sa: "syncAddress ord cfg k = (None, ka)" and sr: "syncRoutes ord cfg ka = (None, k1)"
    by (rule sync_None [OF ok])
  obtain added where
    A1: "set (addrs ka) = set (addrs k) \<union> set added"
    and A2: "set added \<subseteq> set (Address cfg)"
    and A3: "routes ka = routes k"
    and A4: "\<forall>a\<in>set (Address cfg).
           IPNet_String a \<in> IPNet_String ` {x \<in> set (addrs k). net_family x = AF_INET}
           \<or> IPNet_String a \<in> IPNet_String ` set added"
    and A5: "\<forall>x\<in>set (addrs k). net_family x = AF_INET \<longrightarrow> IPNet_String x \<in> IPNet_String ` set (Address cfg)"
    by (rule syncAddress_success [OF ord aok sa])
  have rka: "routes_ok ka" using rok A3 by (simp add: routes_ok_def)
  obtain radded where
    R1: "set (routes k1) = (set (routes ka) \<union> net_masked ` set radded)
        - {r \<in> set (routes ka). net_family r = AF_INET \<and> IPNet_String r \<notin> IPNet_String ` set (desired_routes cfg)}"
    and R2: "set radded \<subseteq> set (desired_routes cfg)"
    and R3: "\<forall>d\<in>set radded. MaskLen d \<le> ip_bits (IP d) \<and> (ip_bits (IP d) = 32 \<longrightarrow> net_masked d = d)"
    and R4: "\<forall>d\<in>set (desired_routes cfg).
           IPNet_String d \<in> IPNet_String ` {r \<in> set (routes ka). net_family r = AF_INET}
           \<or> IPNet_String d \<in> IPNet_String ` set radded"
    and R5: "\<forall>r\<in>set (routes ka). net_family r = AF_INET \<longrightarrow> MaskLen r \<noteq> 0"
    and R6: "addrs k1 = addrs ka"
    and R7: "\<forall>d\<in>set radded. net_masked d \<notin> set (routes ka)"
    by (rule syncRoutes_success [OF ord rka sr])
  have sk1: "set (addrs k1) = set (addrs k) \<union> set added" using A1 R6 by simp
  have added4: "\<forall>a\<in>set added. net_family a = AF_INET" using A2 a4 by blast
  show "\<forall>a\<in>set (Address cfg). IPNet_String a \<in> IPNet_String ` {x \<in> set (addrs k1). net_family x = AF_INET}"
  proof
    fix a assume "a \<in> set (Address cfg)"
    with A4 have "IPNet_String a \<in> IPNet_String ` {x \<in> set (addrs k). net_family x = AF_INET}
           \<or> IPNet_String a \<in> IPNet_String ` set added" by (rule bspec)
    then show "IPNet_String a \<in> IPNet_String ` {x \<in> set (addrs k1). net_family x = AF_INET}"
      using sk1 added4 by auto
  qed
  show "\<forall>x\<in>set (addrs k1). net_family x = AF_INET \<longrightarrow> IPNet_String x \<in> IPNet_String ` set (Address cfg)"
    using sk1 A5 A2 by auto
  have masked: "net_masked d = d" if "d \<in> set radded" for d
  proof -
    from that R2 have dd: "d \<in> set (desired_routes cfg)" by blast
    with cr have c: "canonical d" by (simp add: canonical_routes_def)
    from dd d4 have f: "net_family d = AF_INET" by blast
    from canonical_AF_INET [OF c f] obtain a b c' d' l where "d = IPNet (IPv4 a b c' d') l" by (elim exE conjE)
    then have "ip_bits (IP d) = 32" by (simp add: ip_bits_def)
    with R3 that show ?thesis by blast
  qed
  show "\<forall>d\<in>set (desired_routes cfg).
       IPNet_String d \<in> IPNet_String ` {r \<in> set (routes k1). net_family r = AF_INET \<and> MaskLen r \<noteq> 0}"
  proof
    fix d assume dd: "d \<in> set (desired_routes cfg)"
    with R4 have "IPNet_String d \<in> IPNet_String ` {r \<in> set (routes ka). net_family r = AF_INET}
           \<or> IPNet_String d \<in> IPNet_String ` set radded" by (rule bspec)
    then show "IPNet_String d \<in> IPNet_String ` {r \<in> set (routes k1). net_family r = AF_INET \<and> MaskLen r \<noteq> 0}"
    proof
      assume "IPNet_String d \<in> IPNet_String ` {r \<in> set (routes ka). net_family r = AF_INET}"
      then obtain r where r: "r \<in> set (routes ka)" "net_family r = AF_INET" "IPNet_String d = IPNet_String r"
        by auto
      from r dd have "IPNet_String r \<in> IPNet_String ` set (desired_routes cfg)" by (metis imageI)
      with r R1 have "r \<in> set (routes k1)" by simp
      moreover from r R5 have "MaskLen r \<noteq> 0" by blast
      ultimately show ?thesis using r by (simp add: image_iff) blast
    next
      assume "IPNet_String d \<in> IPNet_String ` set radded"
      then obtain d' where d': "d' \<in> set radded" "IPNet_String d = IPNet_String d'" by auto
      from d' R2 have dd': "d' \<in> set (desired_routes cfg)" by blast
      from masked [OF d'(1)] R7 d'(1) have "d' \<notin> set (routes ka)" by (metis)
      with R1 d'(1) masked [OF d'(1)] have "d' \<in> set (routes k1)" by (simp add: image_iff) metis
      moreover from dd' d4 have "net_family d' = AF_INET \<and> MaskLen d' \<noteq> 0" by blast
      ultimately show ?thesis using d'(2) by (simp add: image_iff) blast
    qed
  qed
  show "\<forall>r\<in>set (routes k1). net_family r = AF_INET \<longrightarrow>
       MaskLen r \<noteq> 0 \<and> IPNet_String r \<in> IPNet_String ` set (desired_routes cfg)"
  proof (intro ballI impI)
    fix r assume r: "r \<in> set (routes k1)" and f: "net_family r = AF_INET"
    from r R1 have "(r \<in> set (routes ka) \<and> IPNet_String r \<in> IPNet_String ` set (desired_routes cfg))
        \<or> r \<in> net_masked ` set radded" using f by auto
    then show "MaskLen r \<noteq> 0 \<and> IPNet_String r \<in> IPNet_String ` set (desired_routes cfg)"
    proof
      assume "r \<in> set (routes ka) \<and> IPNet_String r \<in> IPNet_String ` set (desired_routes cfg)"
      with R5 f show ?thesis by blast
    next
      assume "r \<in> net_masked ` set radded"
      then obtain d where d: "d \<in> set radded" "r = net_masked d" by auto
      with masked [OF d(1)] have rd: "r = d" by simp
      from d R2 have "d \<in> set (desired_routes cfg)" by blast
      with d4 rd show ?thesis by blast
    qed
  qed
qed


section \<open>The phases of Up\<close>


lemmas link_defs =
  LinkByName_def LinkAdd_def Exec_ip_link_add_def LinkSetUp_def wireguardctrl_New_def
  ConfigureDevice_def issue_def

lemma ensure_interface_sync_calls:
  "filter is_sync_call (trace (snd (ensure_interface iface k))) = filter is_sync_call (trace k)"
  by (simp add: ensure_interface_def link_defs split: option.splits)

lemma LinkSetUp_sync_calls:
  "filter is_sync_call (trace (snd (LinkSetUp iface k))) = filter is_sync_call (trace k)"
  by (simp add: link_defs split: option.splits)

lemma push_device_config_sync_calls:
  "filter is_sync_call (trace (snd (push_device_config iface k))) = filter is_sync_call (trace k)"
  by (simp add: push_device_config_def link_defs split: option.splits)

lemma Up_run_phases:
  "Up ord cfg iface k =
   run_phases [ensure_interface iface, LinkSetUp iface, push_device_config iface,
               syncAddress ord cfg, syncRoutes ord cfg] k"
  by (simp add: Up_def ensure_interface_def push_device_config_def
      split: prod.splits option.splits)


section \<open>Evaluating the model on concrete text\<close>


lemma parseIPv4_from_numeral:
  "parseIPv4_from (numeral n) i s p =
     (if s = [] then None
      else (case (if i > 0 then (if hd s \<noteq> CHR ''.'' then None else Some (tl s)) else Some s) of
              None \<Rightarrow> None
            | Some s1 \<Rightarrow>
                (case dtoi s1 of
                   (n', c, ok) \<Rightarrow>
                     if \<not> ok \<or> n' > 255 then None
                     else parseIPv4_from (pred_numeral n) (i + 1) (drop c s1) (p @ [n']))))"
proof -
  have "numeral n = Suc (pred_numeral n)" by (rule numeral_eq_Suc)
  then show ?thesis by (simp only: parseIPv4_from.simps)
qed

lemma CIDRMask_numeral:
  "CIDRMask ones (numeral n) =
     (if ones \<ge> 8 then 0xff # CIDRMask (ones - 8) (pred_numeral n)
      else NOT (drop_bit ones 0xff) # CIDRMask 0 (pred_numeral n))"
proof -
  have "numeral n = Suc (pred_numeral n)" by (rule numeral_eq_Suc)
  then show ?thesis by (simp only: CIDRMask.simps)
qed

lemmas text_eval = IPNet_String_def ip_String_def dotted_def uitoa.simps digit_char_def

lemmas parse_eval =
  ParseAddr_def ParseCIDR_net_def parseCIDR_def index_byte_def parseIPv4_def
  parseIPv4_from_numeral parseIPv4_from.simps dtoi_def digit_val_def big_def ip_Mask_def CIDRMask_numeral

lemmas kernel_eval =
  AddrList_def AddrAdd_def RouteList_def RouteAdd_def RouteDel_def issue_def
  net_family_def ip_family_def net_masked_def ip_bits_def ip_Mask_def CIDRMask_numeral kernel_init_def

lemma String_10_0_0_2: "IPNet_String (IPNet (IPv4 10 0 0 2) 24) = ''10.0.0.2/24''"
  by (simp add: text_eval)

lemma String_192_168_1_1: "IPNet_String (IPNet (IPv4 192 168 1 1) 24) = ''192.168.1.1/24''"
  by (simp add: text_eval)

lemma ParseAddr_192_168_1_1: "ParseAddr ''192.168.1.1/24'' = Inr (IPNet (IPv4 192 168 1 1) 24)"
  by (simp add: parse_eval)




lemma To4_fd00: "To4 (IPv6 0xfd000000000000000000000000000000) = None"
  by simp

lemma String_10_0_0_0: "IPNet_String (IPNet (IPv4 10 0 0 0) 24) = ''10.0.0.0/24''"
  by (simp add: text_eval)

lemma String_10_1_0_0: "IPNet_String (IPNet (IPv4 10 1 0 0) 24) = ''10.1.0.0/24''"
  by (simp add: text_eval)

lemma String_10_9_0_0: "IPNet_String (IPNet (IPv4 10 9 0 0) 16) = ''10.9.0.0/16''"
  by (simp add: text_eval)

lemma ParseCIDR_10_0_0_0: "ParseCIDR_net ''10.0.0.0/24'' = Inr (IPNet (IPv4 10 0 0 0) 24)"
  by (simp add: parse_eval)

lemma ParseCIDR_10_1_0_0: "ParseCIDR_net ''10.1.0.0/24'' = Inr (IPNet (IPv4 10 1 0 0) 24)"
  by (simp add: parse_eval)

lemma ParseCIDR_10_9_0_0: "ParseCIDR_net ''10.9.0.0/16'' = Inr (IPNet (IPv4 10 9 0 0) 16)"
  by (simp add: parse_eval)

lemma range_order_id: "range_order id"
  by (simp add: range_order_def)

lemma range_order_rev: "range_order rev"
  by (simp add: range_order_def)

lemma canonical_IPv4: "canonical (IPNet (IPv4 a b c d) l) \<longleftrightarrow> l \<le> 32"
  by (simp add: canonical_def plain_ip_def ip_bits_def)

lemma routes_ok_C: "routes_ok kernel_C"
  by (simp add: routes_ok_def kernel_C_def kernel_init_def canonical_IPv4 net_masked_def ip_Mask_def CIDRMask_numeral)

lemma canonical_routes_C: "canonical_routes config_C"
  by (simp add: canonical_routes_def config_C_def config_init_def desired_routes_def peer_of_def canonical_IPv4)

lemma syncRoutes_C:
  "syncRoutes id config_C kernel_C =
     (None, kernel_C\<lparr>routes := [IPNet (IPv4 10 0 0 0) 24, IPNet (IPv4 10 1 0 0) 24],
                     trace := [RouteList_call AF_INET, RouteAdd_call (IPNet (IPv4 10 0 0 0) 24),
                               RouteAdd_call (IPNet (IPv4 10 1 0 0) 24),
                               RouteDel_call (IPNet (IPv4 10 9 0 0) 16)]\<rparr>)"
  by (simp add: syncRoutes_def observed_routes_def config_C_def kernel_C_def config_init_def peer_of_def
      Dst_String_def kernel_eval String_10_0_0_0 String_10_1_0_0 String_10_9_0_0
      ParseCIDR_10_0_0_0 ParseCIDR_10_1_0_0 ParseCIDR_10_9_0_0)




lemma kernel_D_two_phases:
  "run_phases [ensure_interface ''wg0'', LinkSetUp ''wg0''] kernel_D =
     (None, kernel_D\<lparr>trace := [LinkByName_call ''wg0'', LinkSetUp_call ''wg0'']\<rparr>)"
  by (simp add: ensure_interface_def kernel_D_def kernel_init_def link_defs)

lemma kernel_D_push:
  "push_device_config ''wg0'' (kernel_D\<lparr>trace := [LinkByName_call ''wg0'', LinkSetUp_call ''wg0'']\<rparr>) =
     (Some (Fault ''device configuration rejected''),
      kernel_D\<lparr>trace := [LinkByName_call ''wg0'', LinkSetUp_call ''wg0'', New_call,
                          ConfigureDevice_call ''wg0'']\<rparr>)"
  by (simp add: push_device_config_def kernel_D_def kernel_init_def link_defs)


lemma kernel_ok_init: "kernel_ok kernel_init"
  by (simp add: kernel_ok_def addrs_ok_def routes_ok_def kernel_init_def)

lemma syncAddress_dup:
  "syncAddress id config_dup kernel_init =
     (None, kernel_init\<lparr>addrs := [IPNet (IPv4 10 0 0 2) 24],
                         trace := [AddrList_call AF_INET, AddrAdd_call (IPNet (IPv4 10 0 0 2) 24)]\<rparr>)"
  by (simp add: syncAddress_def observed_addresses_def config_dup_def config_init_def
      kernel_eval String_10_0_0_2)




lemma ip6_text_numeral:
  "ip6_text (numeral n) gs (e0, e1) i =
     (if i \<ge> 8 then []
      else if e0 < e1 \<and> i = e0
      then ''::'' @ (if e1 \<ge> 8 then [] else appendHex (gs ! e1) @ ip6_text (pred_numeral n) gs (e0, e1) (e1 + 1))
      else (if i > 0 then '':'' else []) @ appendHex (gs ! i) @ ip6_text (pred_numeral n) gs (e0, e1) (i + 1))"
proof -
  have "numeral n = Suc (pred_numeral n)" by (rule numeral_eq_Suc)
  then show ?thesis by (simp only: ip6_text.simps)
qed

lemma groups_fd00: "groups16 0xfd000000000000000000000000000000 = [64768, 0, 0, 0, 0, 0, 0, 0]"
  by (simp add: groups16_def drop_bit_eq_div take_bit_eq_mod)

lemma String_fd00: "IPNet_String (IPNet (IPv6 0xfd000000000000000000000000000000) 64) = ''fd00::/64''"
  by (simp add: IPNet_String_def ip_String_def groups_fd00 Let_def ip6_text_numeral
      appendHex.simps hex_char_def uitoa.simps digit_char_def)


lemma parseIPv6_loop_numeral:
  "parseIPv6_loop (numeral n) s i ell bs =
     (if \<not> i < 16 then Some (s, i, ell, bs)
      else (case xtoi s of
              (n', c, ok) \<Rightarrow>
                if \<not> ok \<or> n' > 65535 then None
                else if c < length s \<and> s ! c = CHR ''.''
                then (if ell = None \<and> i \<noteq> 12 then None
                      else if i + 4 > 16 then None
                      else (case parseIPv4 s of
                              None \<Rightarrow> None
                            | Some b4 \<Rightarrow> Some ([], i + 4, ell, take i bs @ b4 @ drop (i + 4) bs)))
                else (let bs' = bs[i := n' div 256, i + 1 := n' mod 256];
                          i' = i + 2;
                          s' = drop c s
                      in if s' = [] then Some (s', i', ell, bs')
                         else if hd s' \<noteq> CHR '':'' \<or> length s' = 1 then None
                         else (let s2 = tl s'
                               in if hd s2 = CHR '':''
                                  then (if ell \<noteq> None then None
                                        else (let s3 = tl s2
                                              in if s3 = [] then Some (s3, i', Some i', bs')
                                                 else parseIPv6_loop (pred_numeral n) s3 i' (Some i') bs'))
                                  else parseIPv6_loop (pred_numeral n) s2 i' ell bs'))))"
proof -
  have "numeral n = Suc (pred_numeral n)" by (rule numeral_eq_Suc)
  then show ?thesis by (simp only: parseIPv6_loop.simps)
qed

lemma parseIPv4_fd00: "parseIPv4 ''fd00::'' = None"
  by (simp add: parseIPv4_def parseIPv4_from_numeral dtoi_def digit_val_def)

lemma replicate_16: "replicate 16 (0::nat) = [0, 0, 0, 0, 0, 0, 0, 0, 0, 0, 0, 0, 0, 0, 0, 0]"
  by code_simp

lemma replicate_14: "replicate 14 (0::nat) = [0, 0, 0, 0, 0, 0, 0, 0, 0, 0, 0, 0, 0, 0]"
  by code_simp

lemma parseIPv6_fd00: "parseIPv6 ''fd00::'' = Some [253, 0, 0, 0, 0, 0, 0, 0, 0, 0, 0, 0, 0, 0, 0, 0]"
  by (simp add: parseIPv6_def parseIPv6_loop_numeral xtoi_def hex_val_def big_def Let_def
      replicate_16 replicate_14)

lemma word_fd00: "word_of_bytes [253, 0, 0, 0, 0, 0, 0, 0, 0, 0, 0, 0, 0, 0, 0, 0] = 0xfd000000000000000000000000000000"
  by (simp add: word_of_bytes_def)

lemma mask_fd00: "(0xfd000000000000000000000000000000 :: 128 word) AND NOT (mask 64) = 0xfd000000000000000000000000000000"
  by (simp add: mask_eq_exp_minus_1)

lemma ParseCIDR_fd00: "ParseCIDR_net ''fd00::/64'' = Inr (IPNet (IPv6 0xfd000000000000000000000000000000) 64)"
  by (simp add: ParseCIDR_net_def parseCIDR_def index_byte_def parseIPv4_fd00 parseIPv6_fd00 word_fd00
      dtoi_def digit_val_def big_def ip_Mask_def mask_fd00)

lemma canonical_fd00: "canonical (IPNet (IPv6 0xfd000000000000000000000000000000) 64)"
  by (simp add: canonical_def plain_ip_def ip_bits_def)

lemma canonical_routes_C6: "canonical_routes config_C6"
  by (simp add: canonical_routes_def config_C6_def config_init_def desired_routes_def peer_of_def
      canonical_IPv4 canonical_fd00)

lemma net_masked_fd00:
  "net_masked (IPNet (IPv6 0xfd000000000000000000000000000000) 64) = IPNet (IPv6 0xfd000000000000000000000000000000) 64"
  by (simp add: net_masked_def ip_Mask_def mask_fd00)

lemma syncRoutes_C6:
  "syncRoutes id config_C6 kernel_C =
     (None, kernel_C\<lparr>routes := [IPNet (IPv4 10 0 0 0) 24, IPNet (IPv4 10 1 0 0) 24,
                                IPNet (IPv6 0xfd000000000000000000000000000000) 64],
                     trace := [RouteList_call AF_INET, RouteAdd_call (IPNet (IPv4 10 0 0 0) 24),
                               RouteAdd_call (IPNet (IPv4 10 1 0 0) 24),
                               RouteAdd_call (IPNet (IPv6 0xfd000000000000000000000000000000) 64),
                               RouteDel_call (IPNet (IPv4 10 9 0 0) 16)]\<rparr>)"
  by (simp add: syncRoutes_def observed_routes_def config_C6_def kernel_C_def config_init_def peer_of_def
      Dst_String_def RouteList_def RouteAdd_def RouteDel_def issue_def net_family_def ip_family_def
      ip_bits_def kernel_init_def net_masked_def ip_Mask_def CIDRMask_numeral mask_fd00
      String_10_0_0_0 String_10_1_0_0 String_10_9_0_0 String_fd00
      ParseCIDR_10_0_0_0 ParseCIDR_10_1_0_0 ParseCIDR_10_9_0_0 ParseCIDR_fd00)

lemma String_0_0_0_0: "IPNet_String (IPNet (IPv4 0 0 0 0) 0) = ''0.0.0.0/0''"
  by (simp add: text_eval)




lemma addrs_ok_B1: "addrs_ok kernel_B1"
  by (simp add: addrs_ok_def kernel_B1_def kernel_init_def canonical_IPv4)

lemma syncAddress_dup_B1:
  "syncAddress id config_dup kernel_B1 = (None, kernel_B1\<lparr>trace := [AddrList_call AF_INET]\<rparr>)"
  by (simp add: syncAddress_def observed_addresses_def config_dup_def config_init_def kernel_B1_def
      kernel_eval String_10_0_0_2)


lemma kernel_ok_C: "kernel_ok kernel_C"
  using routes_ok_C by (simp add: kernel_ok_def addrs_ok_def kernel_C_def kernel_init_def)

lemma canonical_routes_full: "canonical_routes config_full"
  using canonical_routes_C by (simp add: canonical_routes_def desired_routes_def config_full_def)

lemma ipv4_config_full: "ipv4_config config_full"
  by (simp add: ipv4_config_def desired_routes_def config_full_def config_C_def config_init_def peer_of_def)

lemma sync_full:
  "sync id config_full kernel_C =
     (None, kernel_C\<lparr>addrs := [IPNet (IPv4 10 0 0 2) 24],
                     routes := [IPNet (IPv4 10 0 0 0) 24, IPNet (IPv4 10 1 0 0) 24],
                     trace := [AddrList_call AF_INET, AddrAdd_call (IPNet (IPv4 10 0 0 2) 24),
                               RouteList_call AF_INET, RouteAdd_call (IPNet (IPv4 10 0 0 0) 24),
                               RouteAdd_call (IPNet (IPv4 10 1 0 0) 24),
                               RouteDel_call (IPNet (IPv4 10 9 0 0) 16)]\<rparr>)"
  by (simp add: sync_def syncAddress_def syncRoutes_def observed_addresses_def observed_routes_def
      config_full_def config_C_def kernel_C_def config_init_def peer_of_def
      Dst_String_def kernel_eval String_10_0_0_0 String_10_1_0_0 String_10_9_0_0 String_10_0_0_2
      ParseCIDR_10_0_0_0 ParseCIDR_10_1_0_0 ParseCIDR_10_9_0_0)

lemma sync_full_again:
  "sync rev config_full
     (kernel_C\<lparr>addrs := [IPNet (IPv4 10 0 0 2) 24],
                routes := [IPNet (IPv4 10 0 0 0) 24, IPNet (IPv4 10 1 0 0) 24],
                trace := [AddrList_call AF_INET, AddrAdd_call (IPNet (IPv4 10 0 0 2) 24),
                          RouteList_call AF_INET, RouteAdd_call (IPNet (IPv4 10 0 0 0) 24),
                          RouteAdd_call (IPNet (IPv4 10 1 0 0) 24),
                          RouteDel_call (IPNet (IPv4 10 9 0 0) 16)]\<rparr>) =
     (None, kernel_C\<lparr>addrs := [IPNet (IPv4 10 0 0 2) 24],
                     routes := [IPNet (IPv4 10 0 0 0) 24, IPNet (IPv4 10 1 0 0) 24],
                     trace := [AddrList_call AF_INET, AddrAdd_call (IPNet (IPv4 10 0 0 2) 24),
                               RouteList_call AF_INET, RouteAdd_call (IPNet (IPv4 10 0 0 0) 24),
                               RouteAdd_call (IPNet (IPv4 10 1 0 0) 24),
                               RouteDel_call (IPNet (IPv4 10 9 0 0) 16),
                               AddrList_call AF_INET, RouteList_call AF_INET]\<rparr>)"
  by (simp add: sync_def syncAddress_def syncRoutes_def observed_addresses_def observed_routes_def
      config_full_def config_C_def kernel_C_def config_init_def peer_of_def
      Dst_String_def kernel_eval String_10_0_0_0 String_10_1_0_0 String_10_9_0_0 String_10_0_0_2
      ParseCIDR_10_0_0_0 ParseCIDR_10_1_0_0 ParseCIDR_10_9_0_0)


lemma To4_fd00_1: "To4 (IPv6 0xfd000000000000000000000000000001) = None"
  by simp

lemma ParseCIDR_0_0_0_0: "ParseCIDR_net ''0.0.0.0/0'' = Inr (IPNet (IPv4 0 0 0 0) 0)"
  by (simp add: parse_eval)

lemma sync_v6:
  "sync id config_v6 kernel_init =
     (None, kernel_init\<lparr>addrs := [IPNet (IPv6 0xfd000000000000000000000000000001) 64],
         trace := [AddrList_call AF_INET, AddrAdd_call (IPNet (IPv6 0xfd000000000000000000000000000001) 64),
                   RouteList_call AF_INET]\<rparr>)"
  by (simp add: sync_def syncAddress_def syncRoutes_def observed_addresses_def observed_routes_def
      config_v6_def config_init_def AddrList_def AddrAdd_def RouteList_def issue_def kernel_init_def)

lemma sync_v6_again:
  "sync id config_v6
     (kernel_init\<lparr>addrs := [IPNet (IPv6 0xfd000000000000000000000000000001) 64],
         trace := [AddrList_call AF_INET, AddrAdd_call (IPNet (IPv6 0xfd000000000000000000000000000001) 64),
                   RouteList_call AF_INET]\<rparr>) =
     (Some EEXIST, kernel_init\<lparr>addrs := [IPNet (IPv6 0xfd000000000000000000000000000001) 64],
         trace := [AddrList_call AF_INET, AddrAdd_call (IPNet (IPv6 0xfd000000000000000000000000000001) 64),
                   RouteList_call AF_INET,
                   AddrList_call AF_INET, AddrAdd_call (IPNet (IPv6 0xfd000000000000000000000000000001) 64)]\<rparr>)"
  by (simp add: sync_def syncAddress_def observed_addresses_def
      config_v6_def config_init_def AddrList_def AddrAdd_def issue_def kernel_init_def
      net_family_def ip_family_def To4_fd00_1 del: To4.simps)

lemma sync_r6:
  "sync id config_r6 kernel_init =
     (None, kernel_init\<lparr>routes := [IPNet (IPv6 0xfd000000000000000000000000000000) 64],
         trace := [AddrList_call AF_INET, RouteList_call AF_INET,
                   RouteAdd_call (IPNet (IPv6 0xfd000000000000000000000000000000) 64)]\<rparr>)"
  by (simp add: sync_def syncAddress_def syncRoutes_def observed_addresses_def observed_routes_def
      config_r6_def config_init_def peer_of_def AddrList_def RouteList_def RouteAdd_def issue_def
      kernel_init_def ip_bits_def net_masked_fd00 String_fd00 ParseCIDR_fd00)

lemma sync_r6_again:
  "sync id config_r6
     (kernel_init\<lparr>routes := [IPNet (IPv6 0xfd000000000000000000000000000000) 64],
         trace := [AddrList_call AF_INET, RouteList_call AF_INET,
                   RouteAdd_call (IPNet (IPv6 0xfd000000000000000000000000000000) 64)]\<rparr>) =
     (Some EEXIST, kernel_init\<lparr>routes := [IPNet (IPv6 0xfd000000000000000000000000000000) 64],
         trace := [AddrList_call AF_INET, RouteList_call AF_INET,
                   RouteAdd_call (IPNet (IPv6 0xfd000000000000000000000000000000) 64),
                   AddrList_call AF_INET, RouteList_call AF_INET,
                   RouteAdd_call (IPNet (IPv6 0xfd000000000000000000000000000000) 64)]\<rparr>)"
  by (simp add: sync_def syncAddress_def syncRoutes_def observed_addresses_def observed_routes_def
      config_r6_def config_init_def peer_of_def AddrList_def RouteList_def RouteAdd_def issue_def
      kernel_init_def ip_bits_def net_masked_fd00 String_fd00 ParseCIDR_fd00
      net_family_def ip_family_def To4_fd00 del: To4.simps)

lemma sync_default:
  "sync id config_default kernel_init =
     (None, kernel_init\<lparr>routes := [IPNet (IPv4 0 0 0 0) 0],
         trace := [AddrList_call AF_INET, RouteList_call AF_INET,
                   RouteAdd_call (IPNet (IPv4 0 0 0 0) 0)]\<rparr>)"
  by (simp add: sync_def syncAddress_def syncRoutes_def observed_addresses_def observed_routes_def
      config_default_def config_init_def peer_of_def kernel_eval String_0_0_0_0 ParseCIDR_0_0_0_0)

lemma sync_default_again:
  "sync id config_default
     (kernel_init\<lparr>routes := [IPNet (IPv4 0 0 0 0) 0],
         trace := [AddrList_call AF_INET, RouteList_call AF_INET,
                   RouteAdd_call (IPNet (IPv4 0 0 0 0) 0)]\<rparr>) =
     (Some EEXIST, kernel_init\<lparr>routes := [IPNet (IPv4 0 0 0 0) 0],
         trace := [AddrList_call AF_INET, RouteList_call AF_INET,
                   RouteAdd_call (IPNet (IPv4 0 0 0 0) 0),
                   AddrList_call AF_INET, RouteList_call AF_INET,
                   RouteAdd_call (IPNet (IPv4 0 0 0 0) 0)]\<rparr>)"
  by (simp add: sync_def syncAddress_def syncRoutes_def observed_addresses_def observed_routes_def
      Dst_String_def config_default_def config_init_def peer_of_def kernel_eval String_0_0_0_0)

section \<open>The claims\<close>

text \<open>
  C1. Scenario B of the specification: with the desired address 10.0.0.2/24 and the observed
  addresses 10.0.0.2/24 and 192.168.1.1/24, the claim expects one delete of 192.168.1.1/24
  and no add. The source's removal loop calls \<open>netlink.AddrAdd\<close> where its log
  messages speak of deleting: in both orders in which the map can be visited, the only
  mutating call issued is an add of the stale address, which the kernel refuses with
  \<open>EEXIST\<close>; no delete is issued and the stale address stays.
\<close>

theorem syncAddress_scenario_B:
  "syncAddress id config_B kernel_B =
     (Some EEXIST,
      kernel_B\<lparr>trace := [AddrList_call AF_INET, AddrAdd_call (IPNet (IPv4 192 168 1 1) 24)]\<rparr>)
   \<and> syncAddress rev config_B kernel_B =
     (Some EEXIST,
      kernel_B\<lparr>trace := [AddrList_call AF_INET, AddrAdd_call (IPNet (IPv4 192 168 1 1) 24)]\<rparr>)"
  by (simp add: syncAddress_def observed_addresses_def config_B_def kernel_B_def config_init_def
      kernel_eval String_10_0_0_2 String_192_168_1_1 ParseAddr_192_168_1_1)


text \<open>
  C2 (amended). When \<open>syncRoutes\<close> returns without error, on an interface whose routes
  are well formed and for peers whose allowed-IPs are canonical:
  the IPv4 routes of the interface are exactly the IPv4 allowed-IPs of the peers (a prefix
  allowed to several peers counts once; missing ones were added, other observed ones
  deleted); for every allowed-IP of either family, the route of an allowed-IP with the same
  canonical string is on the interface, with host bits cleared (missing routes are added,
  IPv6 ones too), and where distinct allowed-IPs have distinct canonical strings that is the
  route of every allowed-IP itself; every IPv6 route the interface had is still there, and
  every IPv6 route it has now was there before or is that of an IPv6 allowed-IP. The source
  lists, and so removes, routes of family \<open>AF_INET\<close> only.
\<close>

theorem syncRoutes_converges_AF_INET:
  assumes "range_order ord" and "routes_ok k"
    and "canonical_routes cfg"
    and "syncRoutes ord cfg k = (None, k')"
  shows "{r \<in> set (routes k'). net_family r = AF_INET}
           = {d \<in> set (desired_routes cfg). net_family d = AF_INET}
       \<and> (\<forall>d\<in>set (desired_routes cfg). \<exists>d'\<in>set (desired_routes cfg).
              IPNet_String d' = IPNet_String d \<and> net_masked d' \<in> set (routes k'))
       \<and> (inj_on IPNet_String (set (desired_routes cfg)) \<longrightarrow>
              (\<forall>d\<in>set (desired_routes cfg). net_masked d \<in> set (routes k')))
       \<and> {r \<in> set (routes k). net_family r = AF_INET6} \<subseteq> set (routes k')
       \<and> {r \<in> set (routes k'). net_family r = AF_INET6}
             \<subseteq> {r \<in> set (routes k). net_family r = AF_INET6}
                 \<union> net_masked ` {d \<in> set (desired_routes cfg). net_family d = AF_INET6}"
proof (rule syncRoutes_success [OF assms(1,2,4)])
  let ?D = "desired_routes cfg"
  fix added
  assume s:
    "set (routes k') = (set (routes k) \<union> net_masked ` set added)
        - {r \<in> set (routes k). net_family r = AF_INET \<and> IPNet_String r \<notin> IPNet_String ` set (desired_routes cfg)}"
    "set added \<subseteq> set (desired_routes cfg)"
    "\<forall>d\<in>set added. MaskLen d \<le> ip_bits (IP d) \<and> (ip_bits (IP d) = 32 \<longrightarrow> net_masked d = d)"
    "\<forall>d\<in>set (desired_routes cfg).
           IPNet_String d \<in> IPNet_String ` {r \<in> set (routes k). net_family r = AF_INET}
           \<or> IPNet_String d \<in> IPNet_String ` set added"
    "\<forall>r\<in>set (routes k). net_family r = AF_INET \<longrightarrow> MaskLen r \<noteq> 0"
    "addrs k' = addrs k"
    "\<forall>d\<in>set added. net_masked d \<notin> set (routes k)"
  have kcan: "canonical r" if "r \<in> set (routes k)" for r
    using that assms(2) by (simp add: routes_ok_def)
  have dcan: "canonical d" if "d \<in> set ?D" for d
    using that assms(3) by (simp add: canonical_routes_def)
  have v4_masked: "net_masked d = d" if da: "d \<in> set added" "net_family d = AF_INET" for d
  proof -
    have "canonical d" using da(1) s(2) dcan by blast
    then obtain a b c e l where "d = IPNet (IPv4 a b c e) l" using da(2) canonical_AF_INET by blast
    then have "ip_bits (IP d) = 32" by (simp add: ip_bits_def)
    with s(3) da(1) show ?thesis by blast
  qed
  have sub: "r \<in> set ?D" if r: "r \<in> set (routes k')" "net_family r = AF_INET" for r
  proof -
    from r(1) s(1) consider
      (old) "r \<in> set (routes k)" "IPNet_String r \<in> IPNet_String ` set ?D"
      | (new) d where "d \<in> set added" "r = net_masked d"
      using r(2) by auto
    then show ?thesis
    proof cases
      case old
      then obtain d where d: "d \<in> set ?D" "IPNet_String d = IPNet_String r" by auto
      have "net_family d = AF_INET" using String_family [OF dcan [OF d(1)] kcan [OF old(1)] d(2)] r(2) by simp
      then have "d = r" using String_inj_AF_INET [OF dcan [OF d(1)] _ kcan [OF old(1)] r(2) d(2)] by simp
      then show ?thesis using d(1) by simp
    next
      case new
      have cd: "canonical d" using new(1) s(2) dcan by blast
      have "net_family d = AF_INET" using net_family_masked [OF cd] new(2) r(2) by simp
      then have "net_masked d = d" using v4_masked new(1) by blast
      then show ?thesis using new s(2) by auto
    qed
  qed
  have sup: "d \<in> set (routes k')" if d: "d \<in> set ?D" "net_family d = AF_INET" for d
  proof -
    have notstale: "d \<notin> {r \<in> set (routes k). net_family r = AF_INET \<and> IPNet_String r \<notin> IPNet_String ` set ?D}"
      using d(1) by auto
    from s(4) d(1) consider
      (old) r where "r \<in> set (routes k)" "net_family r = AF_INET" "IPNet_String d = IPNet_String r"
      | (new) d' where "d' \<in> set added" "IPNet_String d = IPNet_String d'"
      by auto
    then show ?thesis
    proof cases
      case old
      have "d = r" using String_inj_AF_INET [OF dcan [OF d(1)] d(2) kcan [OF old(1)] old(2,3)] .
      then show ?thesis using old(1) notstale s(1) by auto
    next
      case new
      have cd': "canonical d'" using new(1) s(2) dcan by blast
      have f: "net_family d' = AF_INET" using String_family [OF dcan [OF d(1)] cd' new(2)] d(2) by simp
      have "d = d'" using String_inj_AF_INET [OF dcan [OF d(1)] d(2) cd' f new(2)] .
      moreover have "net_masked d' = d'" using v4_masked new(1) f by blast
      ultimately have "d \<in> net_masked ` set added" using new(1) by force
      then show ?thesis using notstale s(1) by auto
    qed
  qed
  have v6: "r \<in> set (routes k')" if "r \<in> set (routes k)" "net_family r = AF_INET6" for r
    using that s(1) by auto
  have v6': "r \<in> {r \<in> set (routes k). net_family r = AF_INET6}
                 \<union> net_masked ` {d \<in> set ?D. net_family d = AF_INET6}"
    if r: "r \<in> set (routes k')" "net_family r = AF_INET6" for r
  proof -
    from r(1) s(1) consider (old) "r \<in> set (routes k)" | (new) d where "d \<in> set added" "r = net_masked d"
      by auto
    then show ?thesis
    proof cases
      case old
      then show ?thesis using r(2) by simp
    next
      case new
      have dD: "d \<in> set ?D" using new(1) s(2) by blast
      have "net_family d = AF_INET6" using net_family_masked [OF dcan [OF dD]] new(2) r(2) by simp
      then show ?thesis using new(2) dD by blast
    qed
  qed
  have present: "\<exists>d'\<in>set ?D. IPNet_String d' = IPNet_String d \<and> net_masked d' \<in> set (routes k')"
    if d: "d \<in> set ?D" for d
  proof -
    from s(4) d consider
      (old) r where "r \<in> set (routes k)" "net_family r = AF_INET" "IPNet_String d = IPNet_String r"
      | (new) d' where "d' \<in> set added" "IPNet_String d = IPNet_String d'"
      by auto
    then show ?thesis
    proof cases
      case old
      have f: "net_family d = AF_INET"
        using String_family [OF dcan [OF d] kcan [OF old(1)] old(3)] old(2) by simp
      have "d = r" using String_inj_AF_INET [OF dcan [OF d] f kcan [OF old(1)] old(2,3)] .
      then have "net_masked d = d" using old(1) assms(2) by (simp add: routes_ok_def)
      moreover have "d \<in> set (routes k')" using sup [OF d f] .
      ultimately show ?thesis using d by auto
    next
      case new
      have dD: "d' \<in> set ?D" using new(1) s(2) by blast
      have "net_masked d' \<notin> set (routes k)" using s(7) new(1) by blast
      then have "net_masked d' \<in> set (routes k')" using s(1) new(1) by auto
      then show ?thesis using dD new(2) by auto
    qed
  qed
  have all: "\<forall>d\<in>set ?D. net_masked d \<in> set (routes k')" if inj: "inj_on IPNet_String (set ?D)"
  proof
    fix d assume d: "d \<in> set ?D"
    from present [OF d] obtain d' where d': "d' \<in> set ?D" "IPNet_String d' = IPNet_String d"
      "net_masked d' \<in> set (routes k')" by blast
    have "d' = d" using inj_onD [OF inj d'(2) d'(1) d] .
    then show "net_masked d \<in> set (routes k')" using d'(3) by simp
  qed
  have 1: "{r \<in> set (routes k'). net_family r = AF_INET} = {d \<in> set ?D. net_family d = AF_INET}"
    using sub sup by blast
  have 2: "\<forall>d\<in>set ?D. \<exists>d'\<in>set ?D. IPNet_String d' = IPNet_String d \<and> net_masked d' \<in> set (routes k')"
    using present by blast
  have 4: "{r \<in> set (routes k). net_family r = AF_INET6} \<subseteq> set (routes k')" using v6 by blast
  have 5: "{r \<in> set (routes k'). net_family r = AF_INET6}
             \<subseteq> {r \<in> set (routes k). net_family r = AF_INET6}
                 \<union> net_masked ` {d \<in> set ?D. net_family d = AF_INET6}"
    using v6' by blast
  show ?thesis using 1 2 all 4 5 by blast
qed




text \<open>
  C2, witness: scenario C of the specification with a third peer that is allowed
  fd00::/64, on an interface that has the route 10.9.0.0/16. The two IPv4 routes and the
  IPv6 route are added, the stale route is deleted, and the IPv4 routes are the two
  desired ones.
\<close>

theorem syncRoutes_converges_AF_INET_witness:
  "range_order id \<and> routes_ok kernel_C \<and> canonical_routes config_C6
   \<and> syncRoutes id config_C6 kernel_C =
     (None, kernel_C\<lparr>routes := [IPNet (IPv4 10 0 0 0) 24, IPNet (IPv4 10 1 0 0) 24,
                                IPNet (IPv6 0xfd000000000000000000000000000000) 64],
                     trace := [RouteList_call AF_INET, RouteAdd_call (IPNet (IPv4 10 0 0 0) 24),
                               RouteAdd_call (IPNet (IPv4 10 1 0 0) 24),
                               RouteAdd_call (IPNet (IPv6 0xfd000000000000000000000000000000) 64),
                               RouteDel_call (IPNet (IPv4 10 9 0 0) 16)]\<rparr>)
   \<and> {r \<in> set [IPNet (IPv4 10 0 0 0) 24, IPNet (IPv4 10 1 0 0) 24,
                   IPNet (IPv6 0xfd000000000000000000000000000000) 64]. net_family r = AF_INET}
       = {d \<in> set (desired_routes config_C6). net_family d = AF_INET}"
  using syncRoutes_converges_AF_INET [OF range_order_id routes_ok_C canonical_routes_C6 syncRoutes_C6,
      THEN conjunct1]
    range_order_id routes_ok_C canonical_routes_C6 syncRoutes_C6
  by simp

text \<open>
  C2, counterexample to the claim as stated: on an interface that carries the IPv6 route
  fd00::/64 and with no peer at all, \<open>syncRoutes\<close> returns without error after listing
  the IPv4 routes only; the route stays, so the interface's route set is not the (empty)
  union of the peers' allowed-IPs.
\<close>

theorem syncRoutes_keeps_IPv6_route:
  "syncRoutes id config_init kernel_v6 = (None, kernel_v6\<lparr>trace := [RouteList_call AF_INET]\<rparr>)
   \<and> set (routes (snd (syncRoutes id config_init kernel_v6))) \<noteq> set (desired_routes config_init)
   \<and> IPNet_String ` set (routes (snd (syncRoutes id config_init kernel_v6)))
       \<noteq> IPNet_String ` set (desired_routes config_init)"
  by (simp add: syncRoutes_def observed_routes_def desired_routes_def config_init_def kernel_v6_def
      RouteList_def issue_def net_family_def ip_family_def kernel_init_def)







text \<open>
  C8. For an address of the desired list, on an interface whose addresses are well
  formed: \<open>syncAddress\<close> issues at most one kernel add with that canonical string,
  however often the string occurs in the list, and none at all when an observed address
  has that string, so no occurrence is handed to the removal loop; and an occurrence whose
  string occurred earlier in the list changes nothing: \<open>syncAddress\<close> returns the same
  result, in the same kernel state and after the same calls, as for the list without that
  occurrence, so it cannot fail because of the duplicate.
\<close>

theorem syncAddress_duplicate_desired:
  assumes "range_order ord" and "addrs_ok k" and "a \<in> set (Address cfg)"
  shows "length (filter (is_add_of (IPNet_String a))
           (drop (length (trace k)) (trace (snd (syncAddress ord cfg k))))) \<le> 1
       \<and> (IPNet_String a \<in> IPNet_String ` {x \<in> set (addrs k). net_family x = AF_INET} \<longrightarrow>
            filter (is_add_of (IPNet_String a))
              (drop (length (trace k)) (trace (snd (syncAddress ord cfg k)))) = [])
       \<and> (\<forall>xs b ys. Address cfg = xs @ b # ys \<and> IPNet_String b \<in> IPNet_String ` set xs \<longrightarrow>
            syncAddress ord cfg k = syncAddress ord (cfg\<lparr>Address := xs @ ys\<rparr>) k)"
proof -
  let ?s = "IPNet_String a"
  let ?t = "drop (length (trace k)) (trace (snd (syncAddress ord cfg k)))"
  from syncAddress_trace_shape [OF assms(1,2), of cfg] obtain added nls where sh:
    "?t = AddrList_call AF_INET # map AddrAdd_call added @ map AddrAdd_call nls"
    "distinct (map IPNet_String added)"
    "\<forall>x\<in>set added. IPNet_String x \<notin> IPNet_String ` {y \<in> set (addrs k). net_family y = AF_INET}"
    "\<forall>nl\<in>set nls. IPNet_String nl \<notin> IPNet_String ` set (Address cfg)"
    by (elim exE conjE)
  have sD: "?s \<in> IPNet_String ` set (Address cfg)" using assms(3) by (rule imageI)
  have nl0: "filter (\<lambda>x. IPNet_String x = ?s) nls = []"
    using sh(4) sD by (auto simp: filter_empty_conv)
  have f: "filter (is_add_of ?s) ?t = map AddrAdd_call (filter (\<lambda>x. IPNet_String x = ?s) added)"
    by (simp only: sh(1) filter_is_add_of_list nl0) simp
  have cnt: "length (filter (\<lambda>x. IPNet_String x = ?s) added) \<le> 1"
    using sh(2) by (rule filter_distinct_key)
  have 1: "length (filter (is_add_of ?s) ?t) \<le> 1" using cnt by (simp only: f length_map)
  have 2: "filter (is_add_of ?s) ?t = []"
    if obs: "?s \<in> IPNet_String ` {x \<in> set (addrs k). net_family x = AF_INET}"
  proof -
    have "filter (\<lambda>x. IPNet_String x = ?s) added = []"
      using sh(3) obs by (auto simp: filter_empty_conv)
    then show ?thesis by (simp only: f) simp
  qed
  have 3: "syncAddress ord cfg k = syncAddress ord (cfg\<lparr>Address := xs @ ys\<rparr>) k"
    if "Address cfg = xs @ b # ys \<and> IPNet_String b \<in> IPNet_String ` set xs" for xs b ys
    using that by (intro syncAddress_drop_dup [of cfg xs b ys]) simp_all
  show ?thesis using 1 2 3 by (intro conjI allI impI)
qed


text \<open>
  C8, witness: the desired list names 10.0.0.2/24 twice on an interface that already has
  this address; the sync succeeds after the list call alone, as it does for the list that
  names the address once.
\<close>

theorem syncAddress_duplicate_desired_witness:
  "range_order id \<and> addrs_ok kernel_B1
   \<and> IPNet (IPv4 10 0 0 2) 24 \<in> set (Address config_dup)
   \<and> IPNet_String (IPNet (IPv4 10 0 0 2) 24)
         \<in> IPNet_String ` {x \<in> set (addrs kernel_B1). net_family x = AF_INET}
   \<and> Address config_dup = [IPNet (IPv4 10 0 0 2) 24] @ IPNet (IPv4 10 0 0 2) 24 # []
   \<and> IPNet_String (IPNet (IPv4 10 0 0 2) 24) \<in> IPNet_String ` set [IPNet (IPv4 10 0 0 2) 24]
   \<and> syncAddress id config_dup kernel_B1 = (None, kernel_B1\<lparr>trace := [AddrList_call AF_INET]\<rparr>)
   \<and> filter (is_add_of (IPNet_String (IPNet (IPv4 10 0 0 2) 24)))
         (drop (length (trace kernel_B1)) (trace (snd (syncAddress id config_dup kernel_B1)))) = []
   \<and> syncAddress id config_dup kernel_B1
       = syncAddress id (config_dup\<lparr>Address := [IPNet (IPv4 10 0 0 2) 24] @ []\<rparr>) kernel_B1"
proof -
  let ?a = "IPNet (IPv4 10 0 0 2) 24"
  have m: "?a \<in> set (Address config_dup)"
    by (simp add: config_dup_def config_init_def)
  have obs: "IPNet_String ?a \<in> IPNet_String ` {x \<in> set (addrs kernel_B1). net_family x = AF_INET}"
    by (rule imageI) (simp add: kernel_B1_def kernel_init_def)
  have sp: "Address config_dup = [?a] @ ?a # []"
    by (simp add: config_dup_def config_init_def)
  have dup: "IPNet_String ?a \<in> IPNet_String ` set [?a]" by (rule imageI) simp
  note t = syncAddress_duplicate_desired [OF range_order_id addrs_ok_B1 m]
  have 2: "filter (is_add_of (IPNet_String ?a))
         (drop (length (trace kernel_B1)) (trace (snd (syncAddress id config_dup kernel_B1)))) = []"
    using t [THEN conjunct2, THEN conjunct1] obs by (rule mp)
  have 3: "syncAddress id config_dup kernel_B1
       = syncAddress id (config_dup\<lparr>Address := [?a] @ []\<rparr>) kernel_B1"
    using t [THEN conjunct2, THEN conjunct2, rule_format, OF conjI [OF sp dup]] .
  show ?thesis using range_order_id addrs_ok_B1 m obs sp dup syncAddress_dup_B1 2 3
    by (intro conjI)
qed

text \<open>
  C4. \<open>Up\<close> is the run of the five phases ensure-interface, set-up,
  push-device-config, address-sync and route-sync in this order, where the first phase
  that fails ends the run with its error and the later phases are not started. In
  particular, when the first two phases succeed and pushing the device configuration
  fails, \<open>Up\<close> returns that error, and no call of the address or route reconciler
  (not even a list call) has been issued.
\<close>

theorem Up_phases_in_order:
  "Up ord cfg iface k =
     run_phases [ensure_interface iface, LinkSetUp iface, push_device_config iface,
                 syncAddress ord cfg, syncRoutes ord cfg] k
   \<and> (\<forall>k2 k3 e. run_phases [ensure_interface iface, LinkSetUp iface] k = (None, k2)
          \<and> push_device_config iface k2 = (Some e, k3) \<longrightarrow>
        Up ord cfg iface k = (Some e, k3)
        \<and> filter is_sync_call (trace k3) = filter is_sync_call (trace k))"
proof (intro conjI allI impI)
  show "Up ord cfg iface k =
     run_phases [ensure_interface iface, LinkSetUp iface, push_device_config iface,
                 syncAddress ord cfg, syncRoutes ord cfg] k"
    by (rule Up_run_phases)
next
  fix k2 k3 e
  assume a: "run_phases [ensure_interface iface, LinkSetUp iface] k = (None, k2)
          \<and> push_device_config iface k2 = (Some e, k3)"
  then obtain k1 where 1: "ensure_interface iface k = (None, k1)" and 2: "LinkSetUp iface k1 = (None, k2)"
    by (auto split: prod.splits option.splits)
  from a have 3: "push_device_config iface k2 = (Some e, k3)" by simp
  show "Up ord cfg iface k = (Some e, k3)"
    by (simp add: Up_run_phases 1 2 3)
  have "filter is_sync_call (trace k1) = filter is_sync_call (trace k)"
    using ensure_interface_sync_calls [of iface k] by (simp add: 1)
  moreover have "filter is_sync_call (trace k2) = filter is_sync_call (trace k1)"
    using LinkSetUp_sync_calls [of iface k1] by (simp add: 2)
  moreover have "filter is_sync_call (trace k3) = filter is_sync_call (trace k2)"
    using push_device_config_sync_calls [of iface k2] by (simp add: 3)
  ultimately show "filter is_sync_call (trace k3) = filter is_sync_call (trace k)" by simp
qed


text \<open>
  C4, witness: scenario D of the specification, a driver that rejects the configuration
  of wg0.
\<close>

theorem Up_phases_in_order_witness:
  "run_phases [ensure_interface ''wg0'', LinkSetUp ''wg0''] kernel_D =
     (None, kernel_D\<lparr>trace := [LinkByName_call ''wg0'', LinkSetUp_call ''wg0'']\<rparr>)
   \<and> push_device_config ''wg0'' (kernel_D\<lparr>trace := [LinkByName_call ''wg0'', LinkSetUp_call ''wg0'']\<rparr>) =
     (Some (Fault ''device configuration rejected''),
      kernel_D\<lparr>trace := [LinkByName_call ''wg0'', LinkSetUp_call ''wg0'', New_call,
                          ConfigureDevice_call ''wg0'']\<rparr>)
   \<and> Up id config_B ''wg0'' kernel_D =
     (Some (Fault ''device configuration rejected''),
      kernel_D\<lparr>trace := [LinkByName_call ''wg0'', LinkSetUp_call ''wg0'', New_call,
                          ConfigureDevice_call ''wg0'']\<rparr>)
   \<and> filter is_sync_call
         (trace (kernel_D\<lparr>trace := [LinkByName_call ''wg0'', LinkSetUp_call ''wg0'', New_call,
                          ConfigureDevice_call ''wg0'']\<rparr>)) = filter is_sync_call (trace kernel_D)"
proof -
  note t = Up_phases_in_order [of id config_B "''wg0''" kernel_D, THEN conjunct2, rule_format,
      OF conjI [OF kernel_D_two_phases kernel_D_push]]
  show ?thesis using t kernel_D_two_phases kernel_D_push by (simp only: simp_thms)
qed


text \<open>
  C3, as amended. Let every desired address be an IPv4 address, and every allowed-IP an
  IPv4 network in canonical representation that is not the default route; let the
  interface's addresses and routes be well formed, whatever they are, and let the kernel
  fail calls as it likes. When address sync followed by route sync has returned without
  error, a second run on the state it left, with the same configuration and with any
  order of iteration over the maps, issues no address add or delete and no route add or
  delete, and leaves the addresses and routes as they are.
\<close>

theorem sync_twice_no_mutation:
  assumes ord: "range_order ord" and ord': "range_order ord'" and kok: "kernel_ok k"
    and cr: "canonical_routes cfg" and v4: "ipv4_config cfg"
    and ok: "sync ord cfg k = (None, k1)"
  shows "mutations (drop (length (trace k1)) (trace (snd (sync ord' cfg k1)))) = []
       \<and> addrs (snd (sync ord' cfg k1)) = addrs k1
       \<and> routes (snd (sync ord' cfg k1)) = routes k1"
proof -
  note F = sync_quiet_facts [OF ord kok cr v4 ok]
  have qa: "snd (syncAddress ord' cfg k1) = snd (AddrList AF_INET k1)"
    by (rule syncAddress_quiet [OF F(1) F(2) ord'])
  define kb where "kb = snd (AddrList AF_INET k1)"
  have tb: "trace kb = trace k1 @ [AddrList_call AF_INET]" unfolding kb_def by (rule AddrList_trace)
  have sb: "addrs kb = addrs k1" "routes kb = routes k1" unfolding kb_def by (rule AddrList_state)+
  show ?thesis
  proof (cases "syncAddress ord' cfg k1")
    case (Pair e k')
    with qa have k': "k' = kb" by (simp add: kb_def)
    show ?thesis
    proof (cases e)
      case (Some err)
      with Pair k' have "sync ord' cfg k1 = (Some err, kb)" by (simp add: sync_def)
      then show ?thesis using tb sb by (simp add: mutations_def)
    next
      case None
      with Pair k' have s: "sync ord' cfg k1 = syncRoutes ord' cfg kb" by (simp add: sync_def)
      have qr: "snd (syncRoutes ord' cfg kb) = snd (RouteList AF_INET kb)"
      proof (rule syncRoutes_quiet [OF _ _ ord'])
        show "\<forall>d\<in>set (desired_routes cfg).
           IPNet_String d \<in> IPNet_String ` {r \<in> set (routes kb). net_family r = AF_INET \<and> MaskLen r \<noteq> 0}"
          unfolding sb by (rule F(3))
        show "\<forall>r\<in>set (routes kb). net_family r = AF_INET \<longrightarrow>
           MaskLen r \<noteq> 0 \<and> IPNet_String r \<in> IPNet_String ` set (desired_routes cfg)"
          unfolding sb by (rule F(4))
      qed
      have tr: "trace (snd (RouteList AF_INET kb)) = trace kb @ [RouteList_call AF_INET]"
        by (rule RouteList_trace)
      have sr: "addrs (snd (RouteList AF_INET kb)) = addrs kb" "routes (snd (RouteList AF_INET kb)) = routes kb"
        by (rule RouteList_state)+
      show ?thesis using s qr tr sr tb sb by (simp add: mutations_def)
    qed
  qed
qed

text \<open>
  C3, witness: scenario C with the address 10.0.0.2/24. The first run adds the address
  and two routes and deletes the stale route; the second run issues the two list calls
  only.
\<close>

theorem sync_twice_no_mutation_witness:
  "range_order id \<and> range_order rev \<and> kernel_ok kernel_C \<and> canonical_routes config_full
   \<and> ipv4_config config_full
   \<and> mutations (trace (snd (sync id config_full kernel_C))) =
       [AddrAdd_call (IPNet (IPv4 10 0 0 2) 24), RouteAdd_call (IPNet (IPv4 10 0 0 0) 24),
        RouteAdd_call (IPNet (IPv4 10 1 0 0) 24), RouteDel_call (IPNet (IPv4 10 9 0 0) 16)]
   \<and> drop (length (trace (snd (sync id config_full kernel_C))))
        (trace (snd (sync rev config_full (snd (sync id config_full kernel_C)))))
       = [AddrList_call AF_INET, RouteList_call AF_INET]
   \<and> mutations (drop (length (trace (snd (sync id config_full kernel_C))))
        (trace (snd (sync rev config_full (snd (sync id config_full kernel_C)))))) = []"
  using sync_twice_no_mutation [OF range_order_id range_order_rev kernel_ok_C canonical_routes_full
      ipv4_config_full sync_full, THEN conjunct1]
    range_order_id range_order_rev kernel_ok_C canonical_routes_full ipv4_config_full
  by (simp add: sync_full sync_full_again mutations_def)

text \<open>
  C3, counterexamples to the claim as stated, each on an interface without addresses and
  routes, where the first run succeeds. The reconcilers list the IPv4 family only, so with
  the desired IPv6 address fd00::1/64 the second run issues the add of that address again,
  and with a peer that is allowed fd00::/64 it issues the add of that route again. A
  default route is listed with a nil destination, whose key is not the key of the
  allowed-IP 0.0.0.0/0, so the second run issues the add of the default route again.
\<close>

theorem sync_twice_mutates:
  "fst (sync id config_v6 kernel_init) = None
   \<and> mutations (drop (length (trace (snd (sync id config_v6 kernel_init))))
        (trace (snd (sync id config_v6 (snd (sync id config_v6 kernel_init))))))
       = [AddrAdd_call (IPNet (IPv6 0xfd000000000000000000000000000001) 64)]
   \<and> fst (sync id config_r6 kernel_init) = None
   \<and> mutations (drop (length (trace (snd (sync id config_r6 kernel_init))))
        (trace (snd (sync id config_r6 (snd (sync id config_r6 kernel_init))))))
       = [RouteAdd_call (IPNet (IPv6 0xfd000000000000000000000000000000) 64)]
   \<and> fst (sync id config_default kernel_init) = None
   \<and> mutations (drop (length (trace (snd (sync id config_default kernel_init))))
        (trace (snd (sync id config_default (snd (sync id config_default kernel_init))))))
       = [RouteAdd_call (IPNet (IPv4 0 0 0 0) 0)]"
  by (simp add: sync_v6 sync_v6_again sync_r6 sync_r6_again sync_default sync_default_again
      mutations_def)

end
